theory Spec2Isabelle
  imports Main "HOL-Library.Word"
begin

section \<open>Values shared by the decoder and the marshaler\<close>

text \<open>
  A Go \<open>string\<close> and a Go \<open>[]byte\<close> are byte sequences; both are modelled as
  \<^typ>\<open>string\<close> (a list of 8-bit characters), so that the conversions \<open>[]byte(k)\<close>
  and \<open>string(b)\<close> are the identity. A content identifier is kept in its binary form.
\<close>

type_synonym bytes = string
type_synonym cid = string

text \<open>
  Errors are values. \<open>Errorf\<close> carries the message of a \<open>fmt.Errorf\<close> of this
  repository, \<open>External\<close> stands for an error value handed back by a collaborator
  (block store, sharded structure, codec, generated assembler), \<open>Panic\<close> for a Go
  panic.
\<close>

datatype error = Errorf string | External string | Panic string

text \<open>
  The Go types that \<open>MarshalRecursive\<close> tells apart by type assertion on a node of
  string kind (\<open>types.RawAddress\<close>, \<open>types.CidString\<close>) and on a node of bytes kind
  (\<open>types.Address\<close>, \<open>types.BigInt\<close>, \<open>types.BitField\<close>).
\<close>

datatype stringType = StringPlain | RawAddress | CidString
datatype bytesType = BytesPlain | Address | BigInt | BitField

text \<open>A link is a \<open>cidlink.Link\<close> or a link of some other implementation.\<close>

datatype link = CidLink cid | OtherLink string

text \<open>
  \<open>ipld.Node\<close> by representation kind; \<open>Absent\<close> is the node of kind
  \<open>ReprKind_Invalid\<close>. A float is kept as its 64-bit pattern.
\<close>

datatype node =
    Absent
  | NNull
  | NMap "(node \<times> node) list"
  | NList "node list"
  | NBool bool
  | NInt int
  | NFloat "64 word"
  | NString stringType string
  | NBytes bytesType bytes
  | NLink link

text \<open>\<open>big.Int.SetBytes\<close>: the bytes read as a big-endian unsigned integer.\<close>

definition bigEndian :: "bytes \<Rightarrow> nat" where
  "bigEndian b = foldl (\<lambda>acc c. acc * 256 + of_char c) 0 b"

text \<open>\<open>big.Int.String\<close> of a non-negative integer: its decimal digits.\<close>

fun decimalNat :: "nat \<Rightarrow> string" where
  "decimalNat n =
     (if n < 10 then [''0123456789'' ! n]
      else decimalNat (n div 10) @ [''0123456789'' ! (n mod 10)])"

declare decimalNat.simps [simp del]

text \<open>\<open>fmt.Sprintf("%d", k)\<close> for an \<open>int64\<close>.\<close>

definition decimalInt :: "int \<Rightarrow> string" where
  "decimalInt k = (if k < 0 then CHR ''-'' # decimalNat (nat (- k)) else decimalNat (nat k))"

text \<open>\<open>hex.EncodeToString\<close>.\<close>

definition hexEncode :: "bytes \<Rightarrow> string" where
  "hexEncode b =
     concat (map (\<lambda>c. [''0123456789abcdef'' ! (of_char c div 16),
                       ''0123456789abcdef'' ! (of_char c mod 16)]) b)"

section \<open>Type path resolver\<close>

text \<open>\<open>LotusType\<close> is a named string type; the enumeration is a block of constants.\<close>

type_synonym LotusType = string

definition LotusTypeTipset :: LotusType where
  "LotusTypeTipset = ''tipset''"
definition LotusTypeStateroot :: LotusType where
  "LotusTypeStateroot = ''stateRoot''"
definition AccountActorState :: LotusType where
  "AccountActorState = ''accountActor''"
definition CronActorState :: LotusType where
  "CronActorState = ''cronActor''"
definition InitActorState :: LotusType where
  "InitActorState = ''initActor''"
definition InitActorAddresses :: LotusType where
  "InitActorAddresses = ''initActorAddresses''"
definition MarketActorState :: LotusType where
  "MarketActorState = ''storageMarketActor''"
definition MarketActorProposals :: LotusType where
  "MarketActorProposals = ''storageMarketActor.Proposals''"
definition MarketActorStates :: LotusType where
  "MarketActorStates = ''storageMarketActor.States''"
definition MarketActorPendingProposals :: LotusType where
  "MarketActorPendingProposals = ''storageMarketActor.PendingProposals''"
definition MarketActorEscrowTable :: LotusType where
  "MarketActorEscrowTable = ''storageMarketActor.EscrowTable''"
definition MarketActorLockedTable :: LotusType where
  "MarketActorLockedTable = ''storageMarketActor.LockedTable''"
definition MarketActorDealOpsByEpoch :: LotusType where
  "MarketActorDealOpsByEpoch = ''storageMarketActor.DealOpsByEpoch''"
definition MultisigActorState :: LotusType where
  "MultisigActorState = ''multisigActor''"
definition MultisigActorPending :: LotusType where
  "MultisigActorPending = ''multisigActor.PendingTxns''"
definition StorageMinerActorState :: LotusType where
  "StorageMinerActorState = ''storageMinerActor''"
definition StorageMinerActorInfo :: LotusType where
  "StorageMinerActorInfo = ''storageMinerActor.Info''"
definition StorageMinerActorVestingFunds :: LotusType where
  "StorageMinerActorVestingFunds = ''storageMinerActor.VestingFunds''"
definition StorageMinerActorPreCommittedSectors :: LotusType where
  "StorageMinerActorPreCommittedSectors = ''storageMinerActor.PreCommittedSectors''"
definition StorageMinerActorPreCommittedSectorsExpiry :: LotusType where
  "StorageMinerActorPreCommittedSectorsExpiry = ''storageMinerActor.PreCommittedSectorsExpiry''"
definition StorageMinerActorAllocatedSectors :: LotusType where
  "StorageMinerActorAllocatedSectors = ''storageMinerActor.AllocatedSectors''"
definition StorageMinerActorSectors :: LotusType where
  "StorageMinerActorSectors = ''storageMinerActor.Sectors''"
definition StorageMinerActorDeadlines :: LotusType where
  "StorageMinerActorDeadlines = ''storageMinerActor.Deadlines''"
definition StorageMinerActorDeadline :: LotusType where
  "StorageMinerActorDeadline = ''storageMinerActor.Deadlines.Due''"
definition StorageMinerActorDeadlinePartitions :: LotusType where
  "StorageMinerActorDeadlinePartitions = ''storageMinerActor.Deadlines.Due.Partitions''"
definition StorageMinerActorDeadlinePartitionExpiry :: LotusType where
  "StorageMinerActorDeadlinePartitionExpiry = ''storageMinerActor.Deadlines.Due.Partitions.ExpirationsEpochs''"
definition StorageMinerActorDeadlinePartitionEarly :: LotusType where
  "StorageMinerActorDeadlinePartitionEarly = ''storageMinerActor.Deadlines.Due.Partitions.EarlyTerminated''"
definition StorageMinerActorDeadlineExpiry :: LotusType where
  "StorageMinerActorDeadlineExpiry = ''storageMinerActor.Deadlines.Due.ExpirationsEpochs''"
definition StoragePowerActorState :: LotusType where
  "StoragePowerActorState = ''storagePowerActor''"
definition StoragePowerActorCronEventQueue :: LotusType where
  "StoragePowerActorCronEventQueue = ''storagePowerCronEventQueue''"
definition StoragePowerActorClaims :: LotusType where
  "StoragePowerActorClaims = ''storagePowerClaims''"
definition RewardActorState :: LotusType where
  "RewardActorState = ''rewardActor''"
definition VerifiedRegistryActorState :: LotusType where
  "VerifiedRegistryActorState = ''verifiedRegistryActor''"
definition VerifiedRegistryActorVerifiers :: LotusType where
  "VerifiedRegistryActorVerifiers = ''verifiedRegistryActor.Verifiers''"
definition VerifiedRegistryActorVerifiedClients :: LotusType where
  "VerifiedRegistryActorVerifiedClients = ''verifiedRegistryActor.VerifiedClients''"
definition PaymentChannelActorState :: LotusType where
  "PaymentChannelActorState = ''paymentChannelActor''"
definition PaymentChannelActorLaneStates :: LotusType where
  "PaymentChannelActorLaneStates = ''paymentChannelActor.LaneStates''"

text \<open>\<open>LotusTypeAliases\<close> lists the non-direct mapped aliases.\<close>

definition LotusTypeAliases :: "(string \<times> LotusType) list" where
  "LotusTypeAliases =
    [(''tipset.ParentStateRoot'', LotusTypeStateroot),
     (''initActor.AddressMap'', InitActorAddresses),
     (''storagePowerActor.CronEventQueue'', StoragePowerActorCronEventQueue),
     (''storagePowerActor.Claims'', StoragePowerActorClaims),
     (''storageMinerActor.Deadlines.Due.ExpirationEpochs'', StorageMinerActorDeadlineExpiry),
     (''storageMinerActor.Deadlines.Due.Partitions.ExpirationEpochs'',
        StorageMinerActorDeadlinePartitionExpiry)]"

text \<open>The character class \<open>\d\<close> of Go's regexp package is the ASCII digits.\<close>

definition isDigit :: "char \<Rightarrow> bool" where
  "isDigit c = (c \<in> set ''0123456789'')"

text \<open>
  \<open>simplifyingRe = `\[\d+\]`\<close> tried at the head of a string: the rest of the string
  after the match, when the head is an opening bracket, one or more digits and a closing
  bracket.
\<close>

definition matchRe :: "string \<Rightarrow> string option" where
  "matchRe s =
     (case s of [] \<Rightarrow> None
      | c # cs \<Rightarrow>
          if c = CHR ''['' \<and> takeWhile isDigit cs \<noteq> [] then
            (case dropWhile isDigit cs of [] \<Rightarrow> None
             | r # rs \<Rightarrow> if r = CHR '']'' then Some rs else None)
          else None)"

text \<open>
  \<open>simplifyingRe2 = `\.\d+\.`\<close> tried at the head of a string: a dot, one or more
  digits and a dot.
\<close>

definition matchRe2 :: "string \<Rightarrow> string option" where
  "matchRe2 s =
     (case s of [] \<Rightarrow> None
      | c # cs \<Rightarrow>
          if c = CHR ''.'' \<and> takeWhile isDigit cs \<noteq> [] then
            (case dropWhile isDigit cs of [] \<Rightarrow> None
             | r # rs \<Rightarrow> if r = CHR ''.'' then Some rs else None)
          else None)"

text \<open>
  \<open>simplifyingRe.ReplaceAll(s, "")\<close>: the scan goes left to right; a match is dropped and
  the scan resumes behind it, any other byte is copied.
\<close>

function replaceAllRe :: "string \<Rightarrow> string" where
  "replaceAllRe [] = []"
| "replaceAllRe (c # cs) =
     (case matchRe (c # cs) of
        Some rest \<Rightarrow> replaceAllRe rest
      | None \<Rightarrow> c # replaceAllRe cs)"
  by pat_completeness auto
termination
proof (relation "measure length")
  show "wf (measure length)" by simp
next
  fix c :: char and cs rest :: string
  assume "matchRe (c # cs) = Some rest"
  then obtain x where "dropWhile isDigit cs = x # rest"
    by (auto simp: matchRe_def split: if_splits list.splits)
  then have "length (x # rest) \<le> length cs"
    using length_dropWhile_le [of isDigit cs] by simp
  then show "(rest, c # cs) \<in> measure length" by simp
next
  fix c :: char and cs :: string
  show "(cs, c # cs) \<in> measure length" by simp
qed

text \<open>\<open>simplifyingRe2.ReplaceAll(s, ".")\<close>: each match is replaced by one dot.\<close>

function replaceAllRe2 :: "string \<Rightarrow> string" where
  "replaceAllRe2 [] = []"
| "replaceAllRe2 (c # cs) =
     (case matchRe2 (c # cs) of
        Some rest \<Rightarrow> CHR ''.'' # replaceAllRe2 rest
      | None \<Rightarrow> c # replaceAllRe2 cs)"
  by pat_completeness auto
termination
proof (relation "measure length")
  show "wf (measure length)" by simp
next
  fix c :: char and cs rest :: string
  assume "matchRe2 (c # cs) = Some rest"
  then obtain x where "dropWhile isDigit cs = x # rest"
    by (auto simp: matchRe2_def split: if_splits list.splits)
  then have "length (x # rest) \<le> length cs"
    using length_dropWhile_le [of isDigit cs] by simp
  then show "(rest, c # cs) \<in> measure length" by simp
next
  fix c :: char and cs :: string
  show "(cs, c # cs) \<in> measure length" by simp
qed

text \<open>\<open>strings.ReplaceAll(as, "/", ".")\<close>.\<close>

definition slashToDot :: "string \<Rightarrow> string" where
  "slashToDot s = map (\<lambda>c. if c = CHR ''/'' then CHR ''.'' else c) s"

text \<open>\<open>ResolveType\<close> maps incoming type strings to enum known types.\<close>

definition ResolveType :: "string \<Rightarrow> LotusType" where
  "ResolveType as =
     (let as1 = slashToDot as;
          as2 = replaceAllRe2 (replaceAllRe as1)
      in case map_of LotusTypeAliases as2 of
           Some alias \<Rightarrow> alias
         | None \<Rightarrow> as2)"

section \<open>Prototypes, collaborators and assemblers\<close>

text \<open>
  The node prototypes \<open>types.Type.X__Repr\<close> that the decoder names. A prototype is
  used as a key by identity, so an enumeration stands for it.
\<close>

datatype proto =
    LotusBlockHeader__Repr | AccountV0State__Repr | CronV0State__Repr | InitV0State__Repr
  | MarketV0State__Repr | MultisigV0State__Repr | MinerV0State__Repr | MinerV0Info__Repr
  | MinerV0VestingFunds__Repr | BitField__Repr | MinerV0Deadlines__Repr | MinerV0Deadline__Repr
  | PowerV0State__Repr | RewardV0State__Repr | VerifregV0State__Repr | PaychV0State__Repr
  | Map__LotusActors__Repr | Map__ActorID__Repr | Map__SectorPreCommitOnChainInfo__Repr
  | Map__BitField__Repr | Map__SectorOnChainInfo__Repr | Map__MinerV0Partition__Repr
  | Map__MinerV0ExpirationSet__Repr | Map__PowerV0CronEvent__Repr | Map__PowerV0Claim__Repr
  | Map__DataCap__Repr | Map__MarketV0DealProposal__Repr | Map__MarketV0RawDealProposal__Repr
  | Map__MarketV0DealState__Repr | Map__BalanceTable__Repr | Map__List__DealID__Repr
  | Map__MultisigV0Transaction__Repr | Map__PaychV0LaneState__Repr
  | Multimap__PowerV0CronEvent__Repr
  | LotusActors__Repr | MinerV0SectorPreCommitOnChainInfo__Repr | MinerV0SectorOnChainInfo__Repr
  | MinerV0Partition__Repr | MinerV0ExpirationSet__Repr | PowerV0CronEvent__Repr
  | PowerV0Claim__Repr | MarketV0DealProposal__Repr | MarketV0DealState__Repr
  | MultisigV0Transaction__Repr | PaychV0LaneState__Repr | List__DealID__Repr

text \<open>\<open>LotusPrototypes\<close> provide expected node types for each state type.\<close>

definition LotusPrototypes :: "(LotusType \<times> proto) list" where
  "LotusPrototypes =
    [(LotusTypeTipset, LotusBlockHeader__Repr),
     (AccountActorState, AccountV0State__Repr),
     (CronActorState, CronV0State__Repr),
     (InitActorState, InitV0State__Repr),
     (MarketActorState, MarketV0State__Repr),
     (MultisigActorState, MultisigV0State__Repr),
     (StorageMinerActorState, MinerV0State__Repr),
     (StorageMinerActorInfo, MinerV0Info__Repr),
     (StorageMinerActorVestingFunds, MinerV0VestingFunds__Repr),
     (StorageMinerActorAllocatedSectors, BitField__Repr),
     (StorageMinerActorDeadlines, MinerV0Deadlines__Repr),
     (StorageMinerActorDeadline, MinerV0Deadline__Repr),
     (StoragePowerActorState, PowerV0State__Repr),
     (RewardActorState, RewardV0State__Repr),
     (VerifiedRegistryActorState, VerifregV0State__Repr),
     (PaymentChannelActorState, PaychV0State__Repr),
     (LotusTypeStateroot, Map__LotusActors__Repr),
     (InitActorAddresses, Map__ActorID__Repr),
     (StorageMinerActorPreCommittedSectors, Map__SectorPreCommitOnChainInfo__Repr),
     (StorageMinerActorDeadlinePartitionEarly, Map__BitField__Repr),
     (StorageMinerActorPreCommittedSectorsExpiry, Map__BitField__Repr),
     (StorageMinerActorSectors, Map__SectorOnChainInfo__Repr),
     (StorageMinerActorDeadlinePartitions, Map__MinerV0Partition__Repr),
     (StorageMinerActorDeadlinePartitionExpiry, Map__MinerV0ExpirationSet__Repr),
     (StorageMinerActorDeadlineExpiry, Map__BitField__Repr),
     (StoragePowerActorCronEventQueue, Map__PowerV0CronEvent__Repr),
     (StoragePowerActorClaims, Map__PowerV0Claim__Repr),
     (VerifiedRegistryActorVerifiers, Map__DataCap__Repr),
     (VerifiedRegistryActorVerifiedClients, Map__DataCap__Repr),
     (MarketActorPendingProposals, Map__MarketV0DealProposal__Repr),
     (MarketActorProposals, Map__MarketV0RawDealProposal__Repr),
     (MarketActorStates, Map__MarketV0DealState__Repr),
     (MarketActorEscrowTable, Map__BalanceTable__Repr),
     (MarketActorLockedTable, Map__BalanceTable__Repr),
     (MarketActorDealOpsByEpoch, Map__List__DealID__Repr),
     (MultisigActorPending, Map__MultisigV0Transaction__Repr),
     (PaymentChannelActorLaneStates, Map__PaychV0LaneState__Repr)]"

text \<open>
  What a HAMT hands to the callback of \<open>ForEach\<close>: the callback asserts that the value
  is a \<open>*cbg.Deferred\<close> and reads its raw bytes.
\<close>

datatype hamtValue = Deferred bytes | NotDeferred

text \<open>
  The one operation of a sharded structure is to visit its entries in native order. A
  visit is the list of what the traversal reaches: \<open>Inr x\<close> is an entry handed to the
  callback, \<open>Inl err\<close> is a failure of the traversal itself at that point (a shard that
  cannot be loaded, a value that cannot be unmarshalled).
\<close>

type_synonym 'a iteration = "(error + 'a) list"

text \<open>
  The collaborators, none of which is part of the sources: the block store with the
  structures kept in it (\<open>store.Get\<close>, \<open>hamt.LoadNode\<close>, \<open>adt.AsArray\<close>,
  \<open>adt.AsMultimap\<close>, \<open>adt.AsMap\<close>, \<open>adt.AsSet\<close>), the codecs
  (\<open>dagcbor.Decoder\<close> into a builder of a prototype, \<open>cbor.DecodeInto\<close> a
  \<open>CborInt\<close>, the unmarshalling of a \<open>CBORBytes\<close>, \<open>abi.ParseUIntKey\<close>), and the
  generated assemblers of package \<open>types\<close>: for a map or list of a prototype, whether
  each call is accepted and which node an assigned value becomes.
\<close>

record world =
  Get :: "cid \<Rightarrow> error + bytes"
  LoadNode :: "cid \<Rightarrow> error + (string \<times> hamtValue) iteration"
  AsArray :: "cid \<Rightarrow> error + (int \<times> bytes) iteration"
  AsMultimap :: "cid \<Rightarrow> error + (string \<times> (int \<times> bytes) iteration) iteration"
  AsMap :: "cid \<Rightarrow> error + (string \<times> cid) iteration"
  AsSet :: "cid \<Rightarrow> error + string iteration"
  dagcborDecoder :: "proto \<Rightarrow> bytes \<Rightarrow> error + node"
  DecodeInto :: "bytes \<Rightarrow> error + int"
  unmarshalCBORBytes :: "bytes \<Rightarrow> error + bytes"
  ParseUIntKey :: "string \<Rightarrow> error + 64 word"
  keyType :: "proto \<Rightarrow> stringType"
  beginMap :: "proto \<Rightarrow> error option"
  beginList :: "proto \<Rightarrow> error option"
  assembleEntry :: "proto \<Rightarrow> string list \<Rightarrow> string \<Rightarrow> error option"
  assignNode :: "proto \<Rightarrow> node \<Rightarrow> error + node"
  assignInt :: "proto \<Rightarrow> int \<Rightarrow> error + node"
  assignBytes :: "proto \<Rightarrow> bytes \<Rightarrow> error + node"
  finish :: "proto \<Rightarrow> error option"

text \<open>
  A builder and the assemblers handed out by it share one state: nothing begun, a map
  with its finished entries and the key whose value is awaited, a list with its
  finished values, or the finished node.
\<close>

datatype asmState =
    Fresh
  | MapOpen "(string \<times> node) list" "string option"
  | ListOpen "node list"
  | Finished node

record NodeAssembler =
  Prototype :: proto
  State :: asmState

type_synonym result = "NodeAssembler \<times> error option"

definition NewBuilder :: "proto \<Rightarrow> NodeAssembler" where
  "NewBuilder p = \<lparr>Prototype = p, State = Fresh\<rparr>"

text \<open>\<open>Build\<close> panics on an assembler that is not finished.\<close>

definition Build :: "NodeAssembler \<Rightarrow> error + node" where
  "Build a =
     (case State a of
        Finished n \<Rightarrow> Inr n
      | _ \<Rightarrow> Inl (Panic ''invalid state: cannot call Build on an assembler that's not finished''))"

definition BeginMap :: "world \<Rightarrow> NodeAssembler \<Rightarrow> result" where
  "BeginMap W a =
     (case State a of
        Fresh \<Rightarrow>
          (case beginMap W (Prototype a) of
             Some err \<Rightarrow> (a, Some err)
           | None \<Rightarrow> (a\<lparr>State := MapOpen [] None\<rparr>, None))
      | _ \<Rightarrow> (a, Some (Panic ''invalid state: BeginMap'')))"

definition BeginList :: "world \<Rightarrow> NodeAssembler \<Rightarrow> result" where
  "BeginList W a =
     (case State a of
        Fresh \<Rightarrow>
          (case beginList W (Prototype a) of
             Some err \<Rightarrow> (a, Some err)
           | None \<Rightarrow> (a\<lparr>State := ListOpen []\<rparr>, None))
      | _ \<Rightarrow> (a, Some (Panic ''invalid state: BeginList'')))"

definition AssembleEntry :: "world \<Rightarrow> string \<Rightarrow> NodeAssembler \<Rightarrow> result" where
  "AssembleEntry W k a =
     (case State a of
        MapOpen es None \<Rightarrow>
          (case assembleEntry W (Prototype a) (map fst es) k of
             Some err \<Rightarrow> (a, Some err)
           | None \<Rightarrow> (a\<lparr>State := MapOpen es (Some k)\<rparr>, None))
      | _ \<Rightarrow> (a, Some (Panic ''invalid state: AssembleEntry'')))"

text \<open>
  The three assignments used by the decoders. Into a map they complete the entry whose
  key is awaited; into a list (\<open>AssembleValue().AssignInt\<close>) they append a value.
\<close>

definition assign :: "(error + node) \<Rightarrow> NodeAssembler \<Rightarrow> result" where
  "assign r a =
     (case State a of
        MapOpen es (Some k) \<Rightarrow>
          (case r of
             Inl err \<Rightarrow> (a, Some err)
           | Inr n \<Rightarrow> (a\<lparr>State := MapOpen (es @ [(k, n)]) None\<rparr>, None))
      | ListOpen vs \<Rightarrow>
          (case r of
             Inl err \<Rightarrow> (a, Some err)
           | Inr n \<Rightarrow> (a\<lparr>State := ListOpen (vs @ [n])\<rparr>, None))
      | _ \<Rightarrow> (a, Some (Panic ''invalid state: cannot assign into this assembler'')))"

definition AssignNode :: "world \<Rightarrow> node \<Rightarrow> NodeAssembler \<Rightarrow> result" where
  "AssignNode W n a = assign (assignNode W (Prototype a) n) a"

definition AssignInt :: "world \<Rightarrow> int \<Rightarrow> NodeAssembler \<Rightarrow> result" where
  "AssignInt W i a = assign (assignInt W (Prototype a) i) a"

definition AssignBytes :: "world \<Rightarrow> bytes \<Rightarrow> NodeAssembler \<Rightarrow> result" where
  "AssignBytes W b a = assign (assignBytes W (Prototype a) b) a"

text \<open>
  \<open>Finish\<close> closes a map or a list and makes the node; it panics in the middle of an
  entry. The keys of the map node are string nodes of the key type of the prototype.
\<close>

definition Finish :: "world \<Rightarrow> NodeAssembler \<Rightarrow> result" where
  "Finish W a =
     (case State a of
        MapOpen es None \<Rightarrow>
          (case finish W (Prototype a) of
             Some err \<Rightarrow> (a, Some err)
           | None \<Rightarrow>
               (a\<lparr>State := Finished
                    (NMap (map (\<lambda>(k, v). (NString (keyType W (Prototype a)) k, v)) es))\<rparr>, None))
      | ListOpen vs \<Rightarrow>
          (case finish W (Prototype a) of
             Some err \<Rightarrow> (a, Some err)
           | None \<Rightarrow> (a\<lparr>State := Finished (NList vs)\<rparr>, None))
      | _ \<Rightarrow> (a, Some (Panic ''invalid state: Finish'')))"

text \<open>
  \<open>ForEach\<close> (and \<open>ForAll\<close>) of a sharded structure: the callback runs on each
  entry in turn and mutates the assembler it closes over; the first error, of the
  traversal or of the callback, ends the visit and is returned.
\<close>

fun ForEach :: "'x iteration \<Rightarrow> ('x \<Rightarrow> NodeAssembler \<Rightarrow> result) \<Rightarrow> NodeAssembler \<Rightarrow> result" where
  "ForEach [] fn a = (a, None)"
| "ForEach (Inl err # rest) fn a = (a, Some err)"
| "ForEach (Inr x # rest) fn a =
     (case fn x a of
        (a', Some err) \<Rightarrow> (a', Some err)
      | (a', None) \<Rightarrow> ForEach rest fn a')"

text \<open>\<open>if err != nil { return err }\<close> between two steps on the same assembler.\<close>

definition andThen :: "result \<Rightarrow> (NodeAssembler \<Rightarrow> result) \<Rightarrow> result" where
  "andThen r f = (case r of (a, Some err) \<Rightarrow> (a, Some err) | (a, None) \<Rightarrow> f a)"

section \<open>Structure decoders\<close>

text \<open>
  The seventeen decoders are written out one by one in the source; their bodies are
  copies of a few loops that differ in the structure loaded, the key handed to
  \<open>AssembleEntry\<close>, and the element prototype. Each loop body is one definition here,
  and each decoder instantiates it as its source text does.

  The common frame: the structure is loaded, the map is begun, every entry is visited,
  and the map is finished only if the visit returned no error.
\<close>

type_synonym Loader = "world \<Rightarrow> cid \<Rightarrow> NodeAssembler \<Rightarrow> result"

definition decodeMap ::
  "world \<Rightarrow> (error + 'x iteration) \<Rightarrow> ('x \<Rightarrow> NodeAssembler \<Rightarrow> result) \<Rightarrow> NodeAssembler \<Rightarrow> result" where
  "decodeMap W loaded callback assembler =
     (case loaded of
        Inl err \<Rightarrow> (assembler, Some err)
      | Inr node \<Rightarrow>
          andThen (BeginMap W assembler) (\<lambda>mapper.
          andThen (ForEach node callback mapper) (\<lambda>mapper.
          Finish W mapper)))"

text \<open>
  Callback on a HAMT entry whose value is decoded into a builder of \<open>elem\<close>; \<open>key\<close>
  is what the decoder does to \<open>k\<close> before \<open>AssembleEntry\<close>.
\<close>

definition hamtNodeEntry ::
  "world \<Rightarrow> (string \<Rightarrow> string) \<Rightarrow> proto \<Rightarrow> string \<times> hamtValue \<Rightarrow> NodeAssembler \<Rightarrow> result" where
  "hamtNodeEntry W key elem kv mapper =
     (case kv of (k, val) \<Rightarrow>
        andThen (AssembleEntry W (key k) mapper) (\<lambda>v.
          case val of
            NotDeferred \<Rightarrow> (v, Some (Errorf ''unexpected non-cbg.Deferred''))
          | Deferred raw \<Rightarrow>
              (case dagcborDecoder W elem raw of
                 Inl err \<Rightarrow> (v, Some err)
               | Inr actor \<Rightarrow> AssignNode W actor v)))"

text \<open>Callback of \<open>transformInitActor\<close>: the value is a \<open>CborInt\<close>.\<close>

definition hamtIntEntry :: "world \<Rightarrow> string \<times> hamtValue \<Rightarrow> NodeAssembler \<Rightarrow> result" where
  "hamtIntEntry W kv mapper =
     (case kv of (k, val) \<Rightarrow>
        andThen (AssembleEntry W k mapper) (\<lambda>v.
          case val of
            NotDeferred \<Rightarrow> (v, Some (Errorf ''unexpected non-cbg.Deferred''))
          | Deferred raw \<Rightarrow>
              (case DecodeInto W raw of
                 Inl err \<Rightarrow> (v, Some err)
               | Inr actorID \<Rightarrow> AssignInt W actorID v)))"

text \<open>Callback on a HAMT entry whose raw bytes are assigned as they are.\<close>

definition hamtBytesEntry :: "world \<Rightarrow> string \<times> hamtValue \<Rightarrow> NodeAssembler \<Rightarrow> result" where
  "hamtBytesEntry W kv mapper =
     (case kv of (k, val) \<Rightarrow>
        andThen (AssembleEntry W k mapper) (\<lambda>v.
          case val of
            NotDeferred \<Rightarrow> (v, Some (Errorf ''unexpected non-cbg.Deferred''))
          | Deferred raw \<Rightarrow> AssignBytes W raw v))"

text \<open>
  Callback on an array entry: the key is \<open>fmt.Sprintf("%d", k)\<close> of the \<open>int64\<close>
  index, the value is decoded into a builder of \<open>elem\<close>.
\<close>

definition arrayNodeEntry :: "world \<Rightarrow> proto \<Rightarrow> int \<times> bytes \<Rightarrow> NodeAssembler \<Rightarrow> result" where
  "arrayNodeEntry W elem kv mapper =
     (case kv of (k, raw) \<Rightarrow>
        andThen (AssembleEntry W (decimalInt k) mapper) (\<lambda>v.
          case dagcborDecoder W elem raw of
            Inl err \<Rightarrow> (v, Some err)
          | Inr actor \<Rightarrow> AssignNode W actor v))"

text \<open>Callback on an array entry that was unmarshalled into a \<open>CBORBytes\<close>.\<close>

definition arrayBytesEntry :: "world \<Rightarrow> int \<times> bytes \<Rightarrow> NodeAssembler \<Rightarrow> result" where
  "arrayBytesEntry W kv mapper =
     (case kv of (k, value) \<Rightarrow>
        andThen (AssembleEntry W (decimalInt k) mapper) (\<lambda>v. AssignBytes W value v))"

text \<open>
  An array visited with a \<open>CBORBytes\<close> as the value to fill: each element is
  unmarshalled before the callback runs, and a failure ends the visit.
\<close>

definition asCBORBytes :: "world \<Rightarrow> (int \<times> bytes) iteration \<Rightarrow> (int \<times> bytes) iteration" where
  "asCBORBytes W it =
     map (\<lambda>x. case x of
                 Inl err \<Rightarrow> Inl err
               | Inr (k, raw) \<Rightarrow>
                   (case unmarshalCBORBytes W raw of
                      Inl err \<Rightarrow> Inl err
                    | Inr value \<Rightarrow> Inr (k, value))) it"

definition transformStateRoot :: Loader where
  "transformStateRoot W c assembler =
     decodeMap W (LoadNode W c) (hamtNodeEntry W (\<lambda>k. k) LotusActors__Repr) assembler"

definition transformInitActor :: Loader where
  "transformInitActor W c assembler =
     decodeMap W (LoadNode W c) (hamtIntEntry W) assembler"

definition transformMinerActorPreCommittedSectors :: Loader where
  "transformMinerActorPreCommittedSectors W c assembler =
     decodeMap W (LoadNode W c)
       (hamtNodeEntry W (\<lambda>k. decimalNat (bigEndian k)) MinerV0SectorPreCommitOnChainInfo__Repr)
       assembler"

definition transformMinerActorBitfieldHamt :: Loader where
  "transformMinerActorBitfieldHamt W c assembler =
     decodeMap W (map_sum (\<lambda>err. err) (asCBORBytes W) (AsArray W c)) (arrayBytesEntry W) assembler"

definition transformMinerActorSectors :: Loader where
  "transformMinerActorSectors W c assembler =
     decodeMap W (AsArray W c) (arrayNodeEntry W MinerV0SectorOnChainInfo__Repr) assembler"

definition transformMinerActorDeadlinePartitions :: Loader where
  "transformMinerActorDeadlinePartitions W c assembler =
     decodeMap W (AsArray W c) (arrayNodeEntry W MinerV0Partition__Repr) assembler"

definition transformMinerActorDeadlinePartitionExpiry :: Loader where
  "transformMinerActorDeadlinePartitionExpiry W c assembler =
     decodeMap W (AsArray W c) (arrayNodeEntry W MinerV0ExpirationSet__Repr) assembler"

text \<open>
  Callback of \<open>transformPowerActorEventQueue\<close> on an entry of the multimap: an inner
  map is built from the array under the key and assigned as the value of the entry.
\<close>

definition eventQueueEntry ::
  "world \<Rightarrow> string \<times> (int \<times> bytes) iteration \<Rightarrow> NodeAssembler \<Rightarrow> result" where
  "eventQueueEntry W kv mapper =
     (case kv of (k, val) \<Rightarrow>
        andThen (AssembleEntry W (decimalNat (bigEndian k)) mapper) (\<lambda>v.
          let amt = NewBuilder Map__PowerV0CronEvent__Repr in
          case BeginMap W amt of
            (amtM, Some err) \<Rightarrow> (v, Some err)
          | (amtM, None) \<Rightarrow>
              (case ForEach val (arrayNodeEntry W PowerV0CronEvent__Repr) amtM of
                 (amtM, Some err) \<Rightarrow> (v, Some err)
               | (amtM, None) \<Rightarrow>
                   (case Finish W amtM of
                      (amtM, Some err) \<Rightarrow> (v, Some err)
                    | (amtM, None) \<Rightarrow>
                        (case Build amtM of
                           Inl err \<Rightarrow> (v, Some err)
                         | Inr n \<Rightarrow> AssignNode W n v)))))"

definition transformPowerActorEventQueue :: Loader where
  "transformPowerActorEventQueue W c assembler =
     decodeMap W (AsMultimap W c) (eventQueueEntry W) assembler"

definition transformPowerActorClaims :: Loader where
  "transformPowerActorClaims W c assembler =
     decodeMap W (LoadNode W c) (hamtNodeEntry W (\<lambda>k. k) PowerV0Claim__Repr) assembler"

definition transformVerifiedRegistryDataCaps :: Loader where
  "transformVerifiedRegistryDataCaps W c assembler =
     decodeMap W (LoadNode W c) (hamtBytesEntry W) assembler"

definition transformMarketPendingProposals :: Loader where
  "transformMarketPendingProposals W c assembler =
     decodeMap W (LoadNode W c) (hamtNodeEntry W (\<lambda>k. k) MarketV0DealProposal__Repr) assembler"

definition transformMarketProposals :: Loader where
  "transformMarketProposals W c assembler =
     decodeMap W (AsArray W c) (arrayNodeEntry W MarketV0DealProposal__Repr) assembler"

definition transformMarketStates :: Loader where
  "transformMarketStates W c assembler =
     decodeMap W (AsArray W c) (arrayNodeEntry W MarketV0DealState__Repr) assembler"

definition transformMarketBalanceTable :: Loader where
  "transformMarketBalanceTable W c assembler =
     decodeMap W (LoadNode W c) (hamtBytesEntry W) assembler"

text \<open>
  Callback of the inner visit of \<open>transformMarketDealOpsByEpoch\<close> on a key of the set.
  \<open>int(key)\<close> converts the \<open>uint64\<close> to a signed integer of the same width.
\<close>

definition dealIDEntry :: "world \<Rightarrow> string \<Rightarrow> NodeAssembler \<Rightarrow> result" where
  "dealIDEntry W d amtL =
     (case ParseUIntKey W d of
        Inl err \<Rightarrow> (amtL, Some err)
      | Inr key \<Rightarrow> AssignInt W (sint key) amtL)"

text \<open>
  Callback of \<open>transformMarketDealOpsByEpoch\<close> on an entry of the table: the value is
  the root of a set, whose keys become a list. The result of \<open>set.ForEach\<close> is not
  looked at: the source calls it as a statement.
\<close>

definition dealOpsEntry :: "world \<Rightarrow> string \<times> cid \<Rightarrow> NodeAssembler \<Rightarrow> result" where
  "dealOpsEntry W kv mapper =
     (case kv of (k, value) \<Rightarrow>
        (case AsSet W value of
           Inl err \<Rightarrow> (mapper, Some err)
         | Inr set' \<Rightarrow>
             andThen (AssembleEntry W (decimalNat (bigEndian k)) mapper) (\<lambda>v.
               let amt = NewBuilder List__DealID__Repr in
               case BeginList W amt of
                 (amtL, Some err) \<Rightarrow> (v, Some err)
               | (amtL, None) \<Rightarrow>
                   (let amtL = fst (ForEach set' (dealIDEntry W) amtL) in
                    case Finish W amtL of
                      (amtL, Some err) \<Rightarrow> (v, Some err)
                    | (amtL, None) \<Rightarrow>
                        (case Build amtL of
                           Inl err \<Rightarrow> (v, Some err)
                         | Inr n \<Rightarrow> AssignNode W n v)))))"

definition transformMarketDealOpsByEpoch :: Loader where
  "transformMarketDealOpsByEpoch W c assembler =
     decodeMap W (AsMap W c) (dealOpsEntry W) assembler"

definition transformMultisigPending :: Loader where
  "transformMultisigPending W c assembler =
     decodeMap W (LoadNode W c)
       (hamtNodeEntry W (\<lambda>k. decimalNat (bigEndian k)) MultisigV0Transaction__Repr) assembler"

definition transformPaymentChannelLaneStates :: Loader where
  "transformPaymentChannelLaneStates W c assembler =
     decodeMap W (AsArray W c) (arrayNodeEntry W PaychV0LaneState__Repr) assembler"

section \<open>Load and Transform\<close>

definition complexLoaders :: "(proto \<times> Loader) list" where
  "complexLoaders =
    [(Map__LotusActors__Repr, transformStateRoot),
     (Map__ActorID__Repr, transformInitActor),
     (Map__SectorPreCommitOnChainInfo__Repr, transformMinerActorPreCommittedSectors),
     (Map__BitField__Repr, transformMinerActorBitfieldHamt),
     (Map__SectorOnChainInfo__Repr, transformMinerActorSectors),
     (Map__MinerV0Partition__Repr, transformMinerActorDeadlinePartitions),
     (Map__MinerV0ExpirationSet__Repr, transformMinerActorDeadlinePartitionExpiry),
     (Map__PowerV0CronEvent__Repr, transformPowerActorEventQueue),
     (Map__PowerV0Claim__Repr, transformPowerActorClaims),
     (Map__DataCap__Repr, transformVerifiedRegistryDataCaps),
     (Map__MarketV0DealProposal__Repr, transformMarketProposals),
     (Map__MarketV0RawDealProposal__Repr, transformMarketPendingProposals),
     (Map__MarketV0DealState__Repr, transformMarketStates),
     (Map__BalanceTable__Repr, transformMarketBalanceTable),
     (Map__List__DealID__Repr, transformMarketDealOpsByEpoch),
     (Map__MultisigV0Transaction__Repr, transformMultisigPending),
     (Map__PaychV0LaneState__Repr, transformPaymentChannelLaneStates)]"

text \<open>
  \<open>Load\<close>: a prototype with a complex loader is handed to it; any other block is read
  from the store and decoded as one CBOR document into the assembler.
\<close>

definition Load :: "world \<Rightarrow> cid \<Rightarrow> NodeAssembler \<Rightarrow> result" where
  "Load W c into =
     (let prototype = Prototype into in
      case map_of complexLoaders prototype of
        Some complexLoader \<Rightarrow> complexLoader W c into
      | None \<Rightarrow>
          (case Get W c of
             Inl err \<Rightarrow> (into, Some err)
           | Inr data \<Rightarrow>
               (case dagcborDecoder W prototype data of
                  Inl err \<Rightarrow> (into, Some err)
                | Inr n \<Rightarrow> (into\<lparr>State := Finished n\<rparr>, None))))"

text \<open>\<open>Transform\<close> will unmarshal cbor data based on a provided type hint.\<close>

definition Transform :: "world \<Rightarrow> cid \<Rightarrow> string \<Rightarrow> error + node" where
  "Transform W c as =
     (case map_of LotusPrototypes (ResolveType as) of
        None \<Rightarrow> Inl (Errorf (''unknown type: '' @ as))
      | Some proto \<Rightarrow>
          (let assembler = NewBuilder proto in
           case Load W c assembler of
             (assembler, Some err) \<Rightarrow> Inl err
           | (assembler, None) \<Rightarrow> Build assembler))"

section \<open>The switch-based revision\<close>

text \<open>
  A second source file holds another revision of the same package, in which
  \<open>Transform\<close> selects the decoder by a \<open>switch\<close> on the resolved type and every
  decoder makes its own builder and returns the node. Its definitions carry the suffix
  \<open>_sw\<close>. Its resolver has no replacement of slashes and four aliases.
\<close>

definition LotusTypeAliases_sw :: "(string \<times> LotusType) list" where
  "LotusTypeAliases_sw =
    [(''tipset.ParentStateRoot'', LotusTypeStateroot),
     (''initActor.AddressMap'', InitActorAddresses),
     (''storagePowerActor.CronEventQueue'', StoragePowerActorCronEventQueue),
     (''storagePowerActor.Claims'', StoragePowerActorClaims)]"

definition ResolveType_sw :: "string \<Rightarrow> LotusType" where
  "ResolveType_sw as =
     (let as2 = replaceAllRe2 (replaceAllRe as)
      in case map_of LotusTypeAliases_sw as2 of
           Some alias \<Rightarrow> alias
         | None \<Rightarrow> as2)"

text \<open>The common frame of the decoders that check the result of the visit.\<close>

definition decodeMap_sw ::
  "world \<Rightarrow> (error + 'x iteration) \<Rightarrow> proto \<Rightarrow> ('x \<Rightarrow> NodeAssembler \<Rightarrow> result) \<Rightarrow> error + node" where
  "decodeMap_sw W loaded p callback =
     (case loaded of
        Inl err \<Rightarrow> Inl err
      | Inr node \<Rightarrow>
          (let assembler = NewBuilder p in
           case BeginMap W assembler of
             (mapper, Some err) \<Rightarrow> Inl err
           | (mapper, None) \<Rightarrow>
               (case ForEach node callback mapper of
                  (mapper, Some err) \<Rightarrow> Inl err
                | (mapper, None) \<Rightarrow>
                    (case Finish W mapper of
                       (mapper, Some err) \<Rightarrow> Inl err
                     | (mapper, None) \<Rightarrow> Build mapper))))"

text \<open>
  The frame of \<open>transformStateRoot\<close> and \<open>transformInitActor\<close> in this revision:
  \<open>node.ForEach\<close> is called as a statement and its result is not looked at.
\<close>

definition decodeMapUnchecked_sw ::
  "world \<Rightarrow> (error + 'x iteration) \<Rightarrow> proto \<Rightarrow> ('x \<Rightarrow> NodeAssembler \<Rightarrow> result) \<Rightarrow> error + node" where
  "decodeMapUnchecked_sw W loaded p callback =
     (case loaded of
        Inl err \<Rightarrow> Inl err
      | Inr node \<Rightarrow>
          (let assembler = NewBuilder p in
           case BeginMap W assembler of
             (mapper, Some err) \<Rightarrow> Inl err
           | (mapper, None) \<Rightarrow>
               (let mapper = fst (ForEach node callback mapper) in
                case Finish W mapper of
                  (mapper, Some err) \<Rightarrow> Inl err
                | (mapper, None) \<Rightarrow> Build mapper)))"

definition transformStateRoot_sw :: "world \<Rightarrow> cid \<Rightarrow> error + node" where
  "transformStateRoot_sw W c =
     decodeMapUnchecked_sw W (LoadNode W c) Map__LotusActors__Repr
       (hamtNodeEntry W (\<lambda>k. k) LotusActors__Repr)"

definition transformInitActor_sw :: "world \<Rightarrow> cid \<Rightarrow> error + node" where
  "transformInitActor_sw W c =
     decodeMapUnchecked_sw W (LoadNode W c) Map__ActorID__Repr (hamtIntEntry W)"

definition transformMinerActorPreCommittedSectors_sw :: "world \<Rightarrow> cid \<Rightarrow> error + node" where
  "transformMinerActorPreCommittedSectors_sw W c =
     decodeMap_sw W (LoadNode W c) Map__SectorPreCommitOnChainInfo__Repr
       (hamtNodeEntry W (\<lambda>k. decimalNat (bigEndian k)) MinerV0SectorPreCommitOnChainInfo__Repr)"

definition transformMinerActorPreCommittedSectorsExpiry_sw :: "world \<Rightarrow> cid \<Rightarrow> error + node" where
  "transformMinerActorPreCommittedSectorsExpiry_sw W c =
     decodeMap_sw W (map_sum (\<lambda>err. err) (asCBORBytes W) (AsArray W c)) Map__BitField__Repr
       (arrayBytesEntry W)"

definition transformMinerActorSectors_sw :: "world \<Rightarrow> cid \<Rightarrow> error + node" where
  "transformMinerActorSectors_sw W c =
     decodeMap_sw W (AsArray W c) Map__SectorOnChainInfo__Repr
       (arrayNodeEntry W MinerV0SectorOnChainInfo__Repr)"

definition transformMinerActorDeadlinePartitions_sw :: "world \<Rightarrow> cid \<Rightarrow> error + node" where
  "transformMinerActorDeadlinePartitions_sw W c =
     decodeMap_sw W (AsArray W c) Map__MinerV0Partition__Repr
       (arrayNodeEntry W MinerV0Partition__Repr)"

definition transformMinerActorDeadlinePartitionExpiry_sw :: "world \<Rightarrow> cid \<Rightarrow> error + node" where
  "transformMinerActorDeadlinePartitionExpiry_sw W c =
     decodeMap_sw W (AsArray W c) Map__MinerV0ExpirationSet__Repr
       (arrayNodeEntry W MinerV0ExpirationSet__Repr)"

definition transformMinerActorDeadlineExpiry_sw :: "world \<Rightarrow> cid \<Rightarrow> error + node" where
  "transformMinerActorDeadlineExpiry_sw W c = transformMinerActorPreCommittedSectorsExpiry_sw W c"

definition transformPowerActorEventQueue_sw :: "world \<Rightarrow> cid \<Rightarrow> error + node" where
  "transformPowerActorEventQueue_sw W c =
     decodeMap_sw W (AsMultimap W c) Multimap__PowerV0CronEvent__Repr (eventQueueEntry W)"

definition transformPowerActorClaims_sw :: "world \<Rightarrow> cid \<Rightarrow> error + node" where
  "transformPowerActorClaims_sw W c =
     decodeMap_sw W (LoadNode W c) Map__PowerV0Claim__Repr
       (hamtNodeEntry W (\<lambda>k. k) PowerV0Claim__Repr)"

definition transformVerifiedRegistryDataCaps_sw :: "world \<Rightarrow> cid \<Rightarrow> error + node" where
  "transformVerifiedRegistryDataCaps_sw W c =
     decodeMap_sw W (LoadNode W c) Map__DataCap__Repr (hamtBytesEntry W)"

definition transformMarketPendingProposals_sw :: "world \<Rightarrow> cid \<Rightarrow> error + node" where
  "transformMarketPendingProposals_sw W c =
     decodeMap_sw W (LoadNode W c) Map__MarketV0DealProposal__Repr
       (hamtNodeEntry W (\<lambda>k. k) MarketV0DealProposal__Repr)"

definition transformMarketProposals_sw :: "world \<Rightarrow> cid \<Rightarrow> error + node" where
  "transformMarketProposals_sw W c =
     decodeMap_sw W (AsArray W c) Map__MarketV0RawDealProposal__Repr
       (arrayNodeEntry W MarketV0DealProposal__Repr)"

definition transformMarketStates_sw :: "world \<Rightarrow> cid \<Rightarrow> error + node" where
  "transformMarketStates_sw W c =
     decodeMap_sw W (AsArray W c) Map__MarketV0DealState__Repr
       (arrayNodeEntry W MarketV0DealState__Repr)"

definition transformMarketBalanceTable_sw :: "world \<Rightarrow> cid \<Rightarrow> error + node" where
  "transformMarketBalanceTable_sw W c =
     decodeMap_sw W (LoadNode W c) Map__BalanceTable__Repr (hamtBytesEntry W)"

definition transformMarketDealOpsByEpoch_sw :: "world \<Rightarrow> cid \<Rightarrow> error + node" where
  "transformMarketDealOpsByEpoch_sw W c =
     decodeMap_sw W (AsMap W c) Map__List__DealID__Repr (dealOpsEntry W)"

definition transformMultisigPending_sw :: "world \<Rightarrow> cid \<Rightarrow> error + node" where
  "transformMultisigPending_sw W c =
     decodeMap_sw W (LoadNode W c) Map__MultisigV0Transaction__Repr
       (hamtNodeEntry W (\<lambda>k. decimalNat (bigEndian k)) MultisigV0Transaction__Repr)"

definition transformPaymentChannelLaneStates_sw :: "world \<Rightarrow> cid \<Rightarrow> error + node" where
  "transformPaymentChannelLaneStates_sw W c =
     decodeMap_sw W (AsArray W c) Map__PaychV0LaneState__Repr
       (arrayNodeEntry W PaychV0LaneState__Repr)"

text \<open>
  The first \<open>switch\<close>: the types which do their own store loading. A \<open>fallthrough\<close>
  case shares the decoder of the case below it.
\<close>

definition complexTransforms_sw :: "(LotusType \<times> (world \<Rightarrow> cid \<Rightarrow> error + node)) list" where
  "complexTransforms_sw =
    [(LotusTypeStateroot, transformStateRoot_sw),
     (InitActorAddresses, transformInitActor_sw),
     (StorageMinerActorPreCommittedSectors, transformMinerActorPreCommittedSectors_sw),
     (StorageMinerActorDeadlinePartitionEarly, transformMinerActorPreCommittedSectorsExpiry_sw),
     (StorageMinerActorPreCommittedSectorsExpiry, transformMinerActorPreCommittedSectorsExpiry_sw),
     (StorageMinerActorSectors, transformMinerActorSectors_sw),
     (StorageMinerActorDeadlinePartitions, transformMinerActorDeadlinePartitions_sw),
     (StorageMinerActorDeadlinePartitionExpiry, transformMinerActorDeadlinePartitionExpiry_sw),
     (StorageMinerActorDeadlineExpiry, transformMinerActorDeadlineExpiry_sw),
     (StoragePowerActorCronEventQueue, transformPowerActorEventQueue_sw),
     (StoragePowerActorClaims, transformPowerActorClaims_sw),
     (MarketActorProposals, transformMarketProposals_sw),
     (MarketActorStates, transformMarketStates_sw),
     (MarketActorPendingProposals, transformMarketPendingProposals_sw),
     (MarketActorEscrowTable, transformMarketBalanceTable_sw),
     (MarketActorLockedTable, transformMarketBalanceTable_sw),
     (MarketActorDealOpsByEpoch, transformMarketDealOpsByEpoch_sw),
     (MultisigActorPending, transformMultisigPending_sw),
     (VerifiedRegistryActorVerifiers, transformVerifiedRegistryDataCaps_sw),
     (VerifiedRegistryActorVerifiedClients, transformVerifiedRegistryDataCaps_sw),
     (PaymentChannelActorLaneStates, transformPaymentChannelLaneStates_sw)]"

text \<open>The second \<open>switch\<close>: the types which use block data.\<close>

definition blockPrototypes_sw :: "(LotusType \<times> proto) list" where
  "blockPrototypes_sw =
    [(LotusTypeTipset, LotusBlockHeader__Repr),
     (AccountActorState, AccountV0State__Repr),
     (CronActorState, CronV0State__Repr),
     (InitActorState, InitV0State__Repr),
     (MarketActorState, MarketV0State__Repr),
     (MultisigActorState, MultisigV0State__Repr),
     (StorageMinerActorState, MinerV0State__Repr),
     (StorageMinerActorInfo, MinerV0Info__Repr),
     (StorageMinerActorVestingFunds, MinerV0VestingFunds__Repr),
     (StorageMinerActorAllocatedSectors, BitField__Repr),
     (StorageMinerActorDeadlines, MinerV0Deadlines__Repr),
     (StorageMinerActorDeadline, MinerV0Deadline__Repr),
     (StoragePowerActorState, PowerV0State__Repr),
     (RewardActorState, RewardV0State__Repr),
     (VerifiedRegistryActorState, VerifregV0State__Repr),
     (PaymentChannelActorState, PaychV0State__Repr)]"

definition Transform_sw :: "world \<Rightarrow> cid \<Rightarrow> string \<Rightarrow> error + node" where
  "Transform_sw W c as =
     (case map_of complexTransforms_sw (ResolveType_sw as) of
        Some transform \<Rightarrow> transform W c
      | None \<Rightarrow>
          (case Get W c of
             Inl err \<Rightarrow> Inl err
           | Inr data \<Rightarrow>
               (case map_of blockPrototypes_sw (ResolveType_sw as) of
                  None \<Rightarrow> Inl (Errorf (''unknown type: '' @ as))
                | Some p \<Rightarrow>
                    (let assembler = NewBuilder p in
                     case dagcborDecoder W p data of
                       Inl err \<Rightarrow> Inl err
                     | Inr n \<Rightarrow> Build (assembler\<lparr>State := Finished n\<rparr>)))))"

section \<open>Streaming marshaler\<close>

text \<open>
  A token of the stream. The source reuses one \<open>tok.Token\<close> variable and sets its
  type and the field read for that type; a token is modelled by its type and that
  field.
\<close>

datatype token =
    TMapOpen int | TMapClose | TArrOpen int | TArrClose
  | TNull | TString string | TBool bool | TInt int | TFloat64 "64 word"

text \<open>
  \<open>shared.TokenSink\<close>: \<open>Step\<close> takes one token and may fail; the sink keeps what it
  was given either way.
\<close>

type_synonym 's sink = "'s \<Rightarrow> token \<Rightarrow> 's \<times> error option"

datatype PathSegment = PathSegmentOfString string | PathSegmentOfInt int

type_synonym path = "PathSegment list"

text \<open>\<open>Path.AppendSegment\<close> returns the longer path and leaves its receiver as it is.\<close>

definition AppendSegment :: "path \<Rightarrow> PathSegment \<Rightarrow> path" where
  "AppendSegment p ps = p @ [ps]"

text \<open>
  \<open>DagMarshaler\<close>; the \<open>Loader\<close> may be nil, and a loader may return a nil node.
\<close>

record DagMarshaler =
  Loader :: "(cid \<Rightarrow> path \<Rightarrow> node option) option"
  Path :: path

text \<open>
  The libraries the marshaler calls, none of which is part of the sources:
  \<open>address.NewFromBytes\<close> followed by \<open>String\<close>, \<open>cid.UnmarshalBinary\<close>,
  \<open>Cid.String\<close>, \<open>bitfield.NewFromBytes\<close>, \<open>BitField.UnmarshalCBOR\<close>,
  \<open>BitField.MarshalCBOR\<close> (what it wrote to the buffer, and its error) and
  \<open>base64.StdEncoding.EncodeToString\<close>.
\<close>

record 'bf lib =
  addressString :: "bytes \<Rightarrow> error + string"
  cidFromBytes :: "bytes \<Rightarrow> error + cid"
  cidString :: "cid \<Rightarrow> string"
  bitfieldFromBytes :: "bytes \<Rightarrow> error + 'bf"
  bitfieldUnmarshalCBOR :: "bytes \<Rightarrow> error + 'bf"
  bitfieldMarshalCBOR :: "'bf \<Rightarrow> bytes \<times> error option"
  base64 :: "bytes \<Rightarrow> string"

text \<open>Tokens stepped into the sink one after the other, up to the first failure.\<close>

fun emit :: "'s sink \<Rightarrow> 's \<Rightarrow> token list \<Rightarrow> 's \<times> error option" where
  "emit step s [] = (s, None)"
| "emit step s (tk # tks) =
     (case step s tk of
        (s', Some err) \<Rightarrow> (s', Some err)
      | (s', None) \<Rightarrow> emit step s' tks)"

text \<open>
  The string emitted for a node of string kind, as a map key or as a value: a raw
  address and the bytes of a CID are rendered in their textual form.
\<close>

definition renderString :: "'bf lib \<Rightarrow> node \<Rightarrow> error + string" where
  "renderString L k =
     (case k of
        NString ty str \<Rightarrow>
          (case ty of
             RawAddress \<Rightarrow> addressString L str
           | CidString \<Rightarrow>
               (case cidFromBytes L str of
                  Inl err \<Rightarrow> Inl err
                | Inr c \<Rightarrow> Inr (cidString L c))
           | StringPlain \<Rightarrow> Inr str)
      | _ \<Rightarrow> Inl (External ''AsString called on a node that is not a string''))"

text \<open>
  The loop over the entries of a map. \<open>rec\<close> is the recursive call of
  \<open>MarshalRecursive\<close>; the copy \<open>next\<close> of the marshaler gets the path extended by
  the key.
\<close>

fun marshalMapEntries ::
  "'bf lib \<Rightarrow> 's sink \<Rightarrow> (DagMarshaler \<Rightarrow> node \<Rightarrow> 's \<Rightarrow> ('s \<times> error option) option) \<Rightarrow>
   DagMarshaler \<Rightarrow> (node \<times> node) list \<Rightarrow> 's \<Rightarrow> ('s \<times> error option) option" where
  "marshalMapEntries L step rec d [] s = Some (s, None)"
| "marshalMapEntries L step rec d ((k, v) # kvs) s =
     (case renderString L k of
        Inl err \<Rightarrow> Some (s, Some err)
      | Inr str \<Rightarrow>
          (case step s (TString str) of
             (s1, Some err) \<Rightarrow> Some (s1, Some err)
           | (s1, None) \<Rightarrow>
               (let next = d\<lparr>Path := AppendSegment (Path d) (PathSegmentOfString str)\<rparr>
                in case rec next v s1 of
                     None \<Rightarrow> None
                   | Some (s2, Some err) \<Rightarrow> Some (s2, Some err)
                   | Some (s2, None) \<Rightarrow> marshalMapEntries L step rec d kvs s2)))"

text \<open>
  The loop over the elements of a list, \<open>i\<close> counting up from 0. The source calls
  \<open>next.Path.AppendSegment(ipld.PathSegmentOfInt(i))\<close> as a statement: the path it
  returns is dropped, and \<open>next\<close> is the unchanged copy of the marshaler.
\<close>

fun marshalListItems ::
  "(DagMarshaler \<Rightarrow> node \<Rightarrow> 's \<Rightarrow> ('s \<times> error option) option) \<Rightarrow>
   DagMarshaler \<Rightarrow> node list \<Rightarrow> int \<Rightarrow> 's \<Rightarrow> ('s \<times> error option) option" where
  "marshalListItems rec d [] i s = Some (s, None)"
| "marshalListItems rec d (v # vs) i s =
     (let next = d;
          dropped = AppendSegment (Path next) (PathSegmentOfInt i)
      in case rec next v s of
           None \<Rightarrow> None
         | Some (s1, Some err) \<Rightarrow> Some (s1, Some err)
         | Some (s1, None) \<Rightarrow> marshalListItems rec d vs (i + 1) s1)"

text \<open>
  \<open>MarshalRecursive\<close> is a combination traversal + codec. A loader may return any
  node, so the recursion need not end; the first argument after the sink bounds its
  depth, and \<open>None\<close> says that the bound was reached. The result is the sink and the
  error returned.
\<close>

primrec MarshalRecursive ::
  "'bf lib \<Rightarrow> 's sink \<Rightarrow> nat \<Rightarrow> DagMarshaler \<Rightarrow> node \<Rightarrow> 's \<Rightarrow> ('s \<times> error option) option" where
  "MarshalRecursive L step 0 d n s = None"
| "MarshalRecursive L step (Suc fuel) d n s =
     (case n of
        Absent \<Rightarrow> Some (s, Some (Errorf ''cannot traverse a node that is absent''))
      | NNull \<Rightarrow> Some (step s TNull)
      | NMap kvs \<Rightarrow>
          (case step s (TMapOpen (int (length kvs))) of
             (s1, Some err) \<Rightarrow> Some (s1, Some err)
           | (s1, None) \<Rightarrow>
               (case marshalMapEntries L step (MarshalRecursive L step fuel) d kvs s1 of
                  None \<Rightarrow> None
                | Some (s2, Some err) \<Rightarrow> Some (s2, Some err)
                | Some (s2, None) \<Rightarrow> Some (step s2 TMapClose)))
      | NList vs \<Rightarrow>
          (case step s (TArrOpen (int (length vs))) of
             (s1, Some err) \<Rightarrow> Some (s1, Some err)
           | (s1, None) \<Rightarrow>
               (case marshalListItems (MarshalRecursive L step fuel) d vs 0 s1 of
                  None \<Rightarrow> None
                | Some (s2, Some err) \<Rightarrow> Some (s2, Some err)
                | Some (s2, None) \<Rightarrow> Some (step s2 TArrClose)))
      | NBool v \<Rightarrow> Some (step s (TBool v))
      | NInt v \<Rightarrow> Some (step s (TInt v))
      | NFloat v \<Rightarrow> Some (step s (TFloat64 v))
      | NString ty v \<Rightarrow>
          (case renderString L (NString ty v) of
             Inl err \<Rightarrow> Some (s, Some err)
           | Inr str \<Rightarrow> Some (step s (TString str)))
      | NBytes ty v \<Rightarrow>
          (case ty of
             Address \<Rightarrow>
               (case addressString L v of
                  Inl err \<Rightarrow> Some (s, Some err)
                | Inr a \<Rightarrow> Some (step s (TString a)))
           | BigInt \<Rightarrow> Some (step s (TString (decimalNat (bigEndian v))))
           | BitField \<Rightarrow>
               (case (case bitfieldFromBytes L v of
                        Inr b \<Rightarrow> Inr b
                      | Inl err \<Rightarrow> bitfieldUnmarshalCBOR L v) of
                  Inl err \<Rightarrow> Some (s, Some err)
                | Inr b \<Rightarrow>
                    Some (emit step s
                      [TMapOpen 2, TString ''_type'', TString ''bitfield'', TString ''bytes'',
                       TString (hexEncode (fst (bitfieldMarshalCBOR L b))), TMapClose]))
           | BytesPlain \<Rightarrow> Some (step s (TString (base64 L v))))
      | NLink v \<Rightarrow>
          (case v of
             CidLink lnk \<Rightarrow>
               (case (case Loader d of None \<Rightarrow> None | Some load \<Rightarrow> load lnk (Path d)) of
                  Some node \<Rightarrow> (let next = d in MarshalRecursive L step fuel next node s)
                | None \<Rightarrow>
                    Some (emit step s
                      [TMapOpen 1, TString ''/'', TString (cidString L lnk), TMapClose]))
           | OtherLink x \<Rightarrow>
               Some (s, Some (Errorf
                 ''schemafree link emission only supported by this codec for CID type links''))))"

text \<open>\<open>Marshal\<close> is a non-link-aware marshaler.\<close>

definition Marshal :: "'bf lib \<Rightarrow> 's sink \<Rightarrow> nat \<Rightarrow> node \<Rightarrow> 's \<Rightarrow> ('s \<times> error option) option" where
  "Marshal L step fuel n s = MarshalRecursive L step fuel \<lparr>Loader = None, Path = []\<rparr> n s"

section \<open>Notions used in the statements\<close>

text \<open>
  Every opening bracket of the string opens a bracketed numeric index, that is, a match
  of \<open>simplifyingRe\<close>.
\<close>

fun bracketsIndexOnly :: "string \<Rightarrow> bool" where
  "bracketsIndexOnly [] = True"
| "bracketsIndexOnly (c # cs) =
     ((c \<noteq> CHR ''['' \<or> matchRe (c # cs) \<noteq> None) \<and> bracketsIndexOnly cs)"

text \<open>
  Somewhere in the string two numeric segments follow each other directly: a match of
  \<open>simplifyingRe2\<close> whose closing dot opens another match.
\<close>

fun adjacentSegments :: "string \<Rightarrow> bool" where
  "adjacentSegments [] = False"
| "adjacentSegments (c # cs) =
     ((case matchRe2 (c # cs) of
         Some rest \<Rightarrow> matchRe2 (CHR ''.'' # rest) \<noteq> None
       | None \<Rightarrow> False) \<or> adjacentSegments cs)"

text \<open>No match of \<open>simplifyingRe2\<close> starts anywhere in the string.\<close>

fun noSegment :: "string \<Rightarrow> bool" where
  "noSegment [] = True"
| "noSegment (c # cs) = (matchRe2 (c # cs) = None \<and> noSegment cs)"

text \<open>A sink that records every token and never fails.\<close>

definition recording :: "token list sink" where
  "recording s tk = (s @ [tk], None)"

text \<open>
  A library instance for the examples: an identifier is its own text, every non-empty
  byte string is an address.
\<close>

definition plainLib :: "bytes lib" where
  "plainLib =
     \<lparr>addressString = (\<lambda>b. if b = [] then Inl (External ''invalid address'') else Inr b),
      cidFromBytes = (\<lambda>b. if b = [] then Inl (External ''invalid cid'') else Inr b),
      cidString = (\<lambda>c. c),
      bitfieldFromBytes = (\<lambda>b. Inr b),
      bitfieldUnmarshalCBOR = (\<lambda>b. Inr b),
      bitfieldMarshalCBOR = (\<lambda>b. (b, None)),
      base64 = (\<lambda>b. b)\<rparr>"

text \<open>
  A world for the examples. Its store holds a flat block, a HAMT with two entries, a
  HAMT whose second shard is missing, an array with the indices 0 and 5, a multimap, and
  a table whose one value is the root of a set; the visit of that set reaches one key
  and then a shard that is missing. Any non-empty byte string decodes, the assemblers
  accept every call but a repeated key, and a one-byte key below 128 is a varint.
\<close>

definition demoWorld :: world where
  "demoWorld =
     \<lparr>Get = (\<lambda>c. if c = ''flat'' then Inr ''payload''
                  else Inl (External ''blockstore: block not found'')),
      LoadNode = (\<lambda>c. if c = ''hamt'' then
                         Inr [Inr ([CHR 0x01, CHR 0x00], Deferred ''a''), Inr (''k'', Deferred ''b'')]
                       else if c = ''hamt-missing-shard'' then
                         Inr [Inr (''k'', Deferred ''a''),
                              Inl (External ''blockstore: block not found'')]
                       else Inl (External ''blockstore: block not found'')),
      AsArray = (\<lambda>c. if c = ''amt'' then Inr [Inr (0, ''a''), Inr (5, ''b'')]
                      else Inl (External ''blockstore: block not found'')),
      AsMultimap = (\<lambda>c. if c = ''multimap'' then
                           Inr [Inr ([CHR 0x02], [Inr (0, ''a''), Inr (1, ''b'')])]
                         else Inl (External ''blockstore: block not found'')),
      AsMap = (\<lambda>c. if c = ''table'' then Inr [Inr ([CHR 0x07], ''set'')]
                    else Inl (External ''blockstore: block not found'')),
      AsSet = (\<lambda>c. if c = ''set'' then
                      Inr [Inr [CHR 0x03], Inl (External ''blockstore: block not found'')]
                    else Inl (External ''blockstore: block not found'')),
      dagcborDecoder = (\<lambda>p raw. if raw = [] then Inl (External ''unexpected EOF'')
                                  else Inr (NBytes BytesPlain raw)),
      DecodeInto = (\<lambda>raw. if raw = [] then Inl (External ''unexpected EOF'')
                           else Inr (int (bigEndian raw))),
      unmarshalCBORBytes = (\<lambda>raw. Inr raw),
      ParseUIntKey = (\<lambda>d. case d of
                         [b] \<Rightarrow> if (of_char b :: nat) < 128 then Inr (of_nat (of_char b))
                                else Inl (External ''failed to decode varint key'')
                       | _ \<Rightarrow> Inl (External ''failed to decode varint key'')),
      keyType = (\<lambda>p. StringPlain),
      beginMap = (\<lambda>p. None),
      beginList = (\<lambda>p. None),
      assembleEntry = (\<lambda>p ks k. if k \<in> set ks then Some (External ''repeated map key'') else None),
      assignNode = (\<lambda>p n. Inr n),
      assignInt = (\<lambda>p i. Inr (NInt i)),
      assignBytes = (\<lambda>p b. Inr (NBytes BytesPlain b)),
      finish = (\<lambda>p. None)\<rparr>"

text \<open>The assembler holds no finished node.\<close>

definition unfinished :: "NodeAssembler \<Rightarrow> bool" where
  "unfinished a = (case State a of Finished n \<Rightarrow> False | _ \<Rightarrow> True)"

text \<open>The entries that a visit hands to the callback.\<close>

definition visited :: "'x iteration \<Rightarrow> 'x list" where
  "visited it = concat (map (\<lambda>r. case r of Inl err \<Rightarrow> [] | Inr x \<Rightarrow> [x]) it)"

text \<open>The keys of the map that an assembler has finished, in order.\<close>

definition entryKeys :: "NodeAssembler \<Rightarrow> string list" where
  "entryKeys a =
     (case State a of
        Finished (NMap kvs) \<Rightarrow> map (\<lambda>(k, v). case k of NString ty s \<Rightarrow> s | _ \<Rightarrow> []) kvs
      | _ \<Rightarrow> [])"

text \<open>
  A callback that, whenever it returns no error on a map with no entry begun, has
  added exactly one entry under the key \<open>key x\<close>.
\<close>

definition keyedBy :: "('x \<Rightarrow> string) \<Rightarrow> ('x \<Rightarrow> NodeAssembler \<Rightarrow> result) \<Rightarrow> bool" where
  "keyedBy key callback =
     (\<forall>x a a' es. callback x a = (a', None) \<longrightarrow> State a = MapOpen es None \<longrightarrow>
        Prototype a' = Prototype a \<and> (\<exists>n. State a' = MapOpen (es @ [(key x, n)]) None))"

text \<open>
  The key as a structure hands it to the callback of its visit: a HAMT, a map, a
  multimap and a set hand a string, an array hands the \<open>int64\<close> index. The emitted
  keys are the structure's string keys passed through when they are those strings.
\<close>

datatype nativeKey = StringKey string | IndexKey int

definition passedThrough :: "nativeKey list \<Rightarrow> string list \<Rightarrow> bool" where
  "passedThrough native emitted = (native = map StringKey emitted)"

text \<open>Either both fail or both return the same node.\<close>

definition sameOutcome :: "error + node \<Rightarrow> error + node \<Rightarrow> bool" where
  "sameOutcome r1 r2 =
     (case (r1, r2) of
        (Inl e1, Inl e2) \<Rightarrow> True
      | (Inr n1, Inr n2) \<Rightarrow> n1 = n2
      | _ \<Rightarrow> False)"

text \<open>
  The type keys on which the two revisions of \<open>Transform\<close> are not compared below.
\<close>

definition divergentTypes :: "LotusType list" where
  "divergentTypes =
     [LotusTypeStateroot, InitActorAddresses, StoragePowerActorCronEventQueue,
      MarketActorProposals, MarketActorPendingProposals]"

section \<open>The resolver\<close>

subsection \<open>What the two replacements keep and remove\<close>

lemma matchRe_drop: "matchRe s = Some r \<Longrightarrow> \<exists>n. r = drop n s"
proof -
  assume a: "matchRe s = Some r"
  then obtain c cs where s: "s = c # cs" by (cases s) (auto simp: matchRe_def)
  from a s obtain x where "dropWhile isDigit cs = x # r"
    by (auto simp: matchRe_def split: if_splits list.splits)
  then have "drop (length (takeWhile isDigit cs)) cs = x # r"
    by (simp add: dropWhile_eq_drop)
  then have "r = drop (Suc (Suc (length (takeWhile isDigit cs)))) s"
    using s by (metis drop_Suc_Cons drop_drop list.sel(3) drop_Suc plus_1_eq_Suc tl_drop)
  then show ?thesis by blast
qed

lemma matchRe2_drop: "matchRe2 s = Some r \<Longrightarrow> \<exists>n. r = drop n s"
proof -
  assume a: "matchRe2 s = Some r"
  then obtain c cs where s: "s = c # cs" by (cases s) (auto simp: matchRe2_def)
  from a s obtain x where "dropWhile isDigit cs = x # r"
    by (auto simp: matchRe2_def split: if_splits list.splits)
  then have "drop (length (takeWhile isDigit cs)) cs = x # r"
    by (simp add: dropWhile_eq_drop)
  then have "r = drop (Suc (Suc (length (takeWhile isDigit cs)))) s"
    using s by (metis drop_Suc_Cons drop_drop list.sel(3) drop_Suc plus_1_eq_Suc tl_drop)
  then show ?thesis by blast
qed

lemma bracketsIndexOnly_drop: "bracketsIndexOnly s \<Longrightarrow> bracketsIndexOnly (drop n s)"
proof (induction s arbitrary: n)
  case Nil
  then show ?case by simp
next
  case (Cons c cs)
  then show ?case by (cases n) auto
qed

lemma adjacentSegments_drop: "adjacentSegments (drop n s) \<Longrightarrow> adjacentSegments s"
proof (induction s arbitrary: n)
  case Nil
  then show ?case by simp
next
  case (Cons c cs)
  then show ?case by (cases n) auto
qed

lemma set_replaceAllRe: "set (replaceAllRe s) \<subseteq> set s"
proof (induction s rule: replaceAllRe.induct)
  case 1
  then show ?case by simp
next
  case (2 c cs)
  show ?case
  proof (cases "matchRe (c # cs)")
    case None
    with 2 show ?thesis by auto
  next
    case (Some rest)
    then obtain n where "rest = drop n (c # cs)" using matchRe_drop by blast
    then have "set rest \<subseteq> set (c # cs)" by (metis set_drop_subset)
    with 2 Some show ?thesis by auto
  qed
qed

lemma matchRe2_head: "matchRe2 (c # cs) = Some r \<Longrightarrow> c = CHR ''.''"
  by (auto simp: matchRe2_def split: if_splits)

lemma matchRe_head: "matchRe (c # cs) = Some r \<Longrightarrow> c = CHR ''[''"
  by (auto simp: matchRe_def split: if_splits)

lemma set_replaceAllRe2: "set (replaceAllRe2 s) \<subseteq> set s"
proof (induction s rule: replaceAllRe2.induct)
  case 1
  then show ?case by simp
next
  case (2 c cs)
  show ?case
  proof (cases "matchRe2 (c # cs)")
    case None
    with 2 show ?thesis by auto
  next
    case (Some rest)
    then obtain n where "rest = drop n (c # cs)" using matchRe2_drop by blast
    then have "set rest \<subseteq> set (c # cs)" by (metis set_drop_subset)
    moreover have "c = CHR ''.''" using Some by (rule matchRe2_head)
    ultimately show ?thesis using 2 Some by auto
  qed
qed

lemma replaceAllRe_no_bracket:
  "bracketsIndexOnly s \<Longrightarrow> CHR ''['' \<notin> set (replaceAllRe s)"
proof (induction s rule: replaceAllRe.induct)
  case 1
  then show ?case by simp
next
  case (2 c cs)
  show ?case
  proof (cases "matchRe (c # cs)")
    case None
    with 2 show ?thesis by auto
  next
    case (Some rest)
    then obtain n where "rest = drop n (c # cs)" using matchRe_drop by blast
    with 2(3) have "bracketsIndexOnly rest" using bracketsIndexOnly_drop by blast
    with 2 Some show ?thesis by auto
  qed
qed

lemma replaceAllRe_id: "CHR ''['' \<notin> set s \<Longrightarrow> replaceAllRe s = s"
proof (induction s)
  case Nil
  then show ?case by simp
next
  case (Cons c cs)
  then have "matchRe (c # cs) = None" by (auto simp: matchRe_def)
  with Cons show ?case by simp
qed

lemma slashToDot_id: "CHR ''/'' \<notin> set s \<Longrightarrow> slashToDot s = s"
  by (induction s) (auto simp: slashToDot_def)

lemma slashToDot_no_slash: "CHR ''/'' \<notin> set (slashToDot s)"
  by (auto simp: slashToDot_def)

lemma replaceAllRe2_id: "noSegment s \<Longrightarrow> replaceAllRe2 s = s"
  by (induction s) auto

lemma replaceAllRe2_Cons: "\<exists>ys. replaceAllRe2 (c # cs) = c # ys"
  by (cases "matchRe2 (c # cs)") (auto dest: matchRe2_head)

lemma not_digit_dot: "\<not> isDigit (CHR ''.'')"
  by (simp add: isDigit_def)

lemma replaceAllRe2_digits:
  "takeWhile isDigit (replaceAllRe2 s) = takeWhile isDigit s \<and>
   dropWhile isDigit (replaceAllRe2 s) = replaceAllRe2 (dropWhile isDigit s)"
proof (induction s)
  case Nil
  then show ?case by simp
next
  case (Cons c cs)
  show ?case
  proof (cases "isDigit c")
    case True
    then have "c \<noteq> CHR ''.''" using not_digit_dot by auto
    then have "matchRe2 (c # cs) = None" by (auto simp: matchRe2_def)
    with Cons True show ?thesis by simp
  next
    case False
    obtain ys where "replaceAllRe2 (c # cs) = c # ys" using replaceAllRe2_Cons by blast
    with False show ?thesis by simp
  qed
qed

lemma matchRe2_after_replace:
  "matchRe2 (CHR ''.'' # cs) = None \<Longrightarrow> matchRe2 (CHR ''.'' # replaceAllRe2 cs) = None"
proof -
  assume a: "matchRe2 (CHR ''.'' # cs) = None"
  show ?thesis
  proof (cases "dropWhile isDigit cs")
    case Nil
    then have "dropWhile isDigit (replaceAllRe2 cs) = []"
      using replaceAllRe2_digits [of cs] by (simp del: dropWhile_eq_Nil_conv)
    then show ?thesis by (simp add: matchRe2_def del: dropWhile_eq_Nil_conv)
  next
    case (Cons r rs)
    obtain ys where ys: "replaceAllRe2 (r # rs) = r # ys" using replaceAllRe2_Cons by blast
    from a Cons have "takeWhile isDigit cs = [] \<or> r \<noteq> CHR ''.''"
      by (auto simp: matchRe2_def split: if_splits)
    then show ?thesis using replaceAllRe2_digits [of cs] Cons ys
      by (auto simp: matchRe2_def)
  qed
qed

lemma replaceAllRe2_noSegment:
  "\<not> adjacentSegments s \<Longrightarrow> noSegment (replaceAllRe2 s)"
proof (induction s rule: replaceAllRe2.induct)
  case 1
  then show ?case by simp
next
  case (2 c cs)
  show ?case
  proof (cases "matchRe2 (c # cs)")
    case None
    have "matchRe2 (c # replaceAllRe2 cs) = None"
    proof (cases "c = CHR ''.''")
      case True
      with None show ?thesis using matchRe2_after_replace by simp
    next
      case False
      then show ?thesis by (simp add: matchRe2_def)
    qed
    with 2 None show ?thesis by simp
  next
    case (Some rest)
    then obtain n where "rest = drop n (c # cs)" using matchRe2_drop by blast
    with 2(3) have "\<not> adjacentSegments rest" using adjacentSegments_drop by blast
    moreover from 2(3) Some have "matchRe2 (CHR ''.'' # rest) = None" by simp
    ultimately show ?thesis using 2 Some matchRe2_after_replace by simp
  qed
qed

lemma plain_fixed:
  assumes "\<forall>c\<in>set s. \<not> isDigit c \<and> c \<noteq> CHR ''/''"
  shows "replaceAllRe2 (replaceAllRe (slashToDot s)) = s"
proof -
  have d: "\<forall>c\<in>set t. \<not> isDigit c \<Longrightarrow> replaceAllRe t = t \<and> replaceAllRe2 t = t" for t
  proof (induction t)
    case Nil
    then show ?case by simp
  next
    case (Cons c cs)
    then have "takeWhile isDigit cs = []" by (cases cs) auto
    then have "matchRe (c # cs) = None" "matchRe2 (c # cs) = None"
      by (simp_all add: matchRe_def matchRe2_def)
    with Cons show ?case by simp
  qed
  from assms have "CHR ''/'' \<notin> set s" by auto
  then have "slashToDot s = s" by (rule slashToDot_id)
  with d assms show ?thesis by simp
qed

lemma ResolveType_plain:
  assumes "\<forall>c\<in>set s. \<not> isDigit c \<and> c \<noteq> CHR ''/''" and "map_of LotusTypeAliases s = None"
  shows "ResolveType s = s"
  using assms plain_fixed [OF assms(1)] by (simp add: ResolveType_def)

lemma alias_targets_fixed:
  "(k, a) \<in> set LotusTypeAliases \<Longrightarrow> ResolveType a = a"
proof -
  have 1: "ResolveType LotusTypeStateroot = LotusTypeStateroot"
    by (rule ResolveType_plain) (simp_all add: LotusTypeStateroot_def isDigit_def LotusTypeAliases_def)
  have 2: "ResolveType InitActorAddresses = InitActorAddresses"
    by (rule ResolveType_plain) (simp_all add: InitActorAddresses_def isDigit_def LotusTypeAliases_def)
  have 3: "ResolveType StoragePowerActorCronEventQueue = StoragePowerActorCronEventQueue"
    by (rule ResolveType_plain)
      (simp_all add: StoragePowerActorCronEventQueue_def isDigit_def LotusTypeAliases_def)
  have 4: "ResolveType StoragePowerActorClaims = StoragePowerActorClaims"
    by (rule ResolveType_plain)
      (simp_all add: StoragePowerActorClaims_def isDigit_def LotusTypeAliases_def)
  have 5: "ResolveType StorageMinerActorDeadlineExpiry = StorageMinerActorDeadlineExpiry"
    by (rule ResolveType_plain)
      (simp_all add: StorageMinerActorDeadlineExpiry_def isDigit_def LotusTypeAliases_def)
  have 6: "ResolveType StorageMinerActorDeadlinePartitionExpiry
             = StorageMinerActorDeadlinePartitionExpiry"
    by (rule ResolveType_plain)
      (simp_all add: StorageMinerActorDeadlinePartitionExpiry_def isDigit_def LotusTypeAliases_def)
  assume "(k, a) \<in> set LotusTypeAliases"
  then have "a \<in> {LotusTypeStateroot, InitActorAddresses, StoragePowerActorCronEventQueue,
      StoragePowerActorClaims, StorageMinerActorDeadlineExpiry,
      StorageMinerActorDeadlinePartitionExpiry}"
    unfolding LotusTypeAliases_def by auto
  with 1 2 3 4 5 6 show ?thesis by auto
qed

subsection \<open>Idempotence\<close>

text \<open>
  C1, as amended. For every type path in which every opening bracket opens a bracketed
  numeric index and in which, once slashes are dots and the bracketed indices are
  removed, no two numeric segments follow each other directly, resolving the resolved
  path gives the resolved path again.
\<close>

theorem ResolveType_idem:
  assumes "bracketsIndexOnly (slashToDot p)"
    and "\<not> adjacentSegments (replaceAllRe (slashToDot p))"
  shows "ResolveType (ResolveType p) = ResolveType p"
proof -
  define t where "t = replaceAllRe (slashToDot p)"
  define n where "n = replaceAllRe2 t"
  have nb: "CHR ''['' \<notin> set n"
    using replaceAllRe_no_bracket [OF assms(1)] set_replaceAllRe2 [of t]
    by (auto simp: n_def t_def)
  have ns: "CHR ''/'' \<notin> set n"
    using slashToDot_no_slash [of p] set_replaceAllRe [of "slashToDot p"] set_replaceAllRe2 [of t]
    by (auto simp: n_def t_def)
  have seg: "noSegment n"
    using replaceAllRe2_noSegment assms(2) by (simp add: n_def t_def)
  have fixn: "replaceAllRe2 (replaceAllRe (slashToDot n)) = n"
    using nb ns seg by (simp add: slashToDot_id replaceAllRe_id replaceAllRe2_id)
  show ?thesis
  proof (cases "map_of LotusTypeAliases n")
    case None
    then have "ResolveType p = n" by (simp add: ResolveType_def n_def t_def)
    moreover have "ResolveType n = n" using None fixn by (simp add: ResolveType_def)
    ultimately show ?thesis by simp
  next
    case (Some a)
    then have "ResolveType p = a" by (simp add: ResolveType_def n_def t_def)
    moreover have "ResolveType a = a"
      using alias_targets_fixed map_of_SomeD [OF Some] by blast
    ultimately show ?thesis by simp
  qed
qed

text \<open>
  Witness for C1: a path with slashes, a bracketed index, a numeric segment and an
  alias satisfies both hypotheses.
\<close>

theorem ResolveType_idem_witness:
  "bracketsIndexOnly (slashToDot ''storageMinerActor/Deadlines/Due[3]/Partitions.12.ExpirationEpochs'')
   \<and> ResolveType (ResolveType ''storageMinerActor/Deadlines/Due[3]/Partitions.12.ExpirationEpochs'')
      = ResolveType ''storageMinerActor/Deadlines/Due[3]/Partitions.12.ExpirationEpochs''"
proof -
  let ?p = "''storageMinerActor/Deadlines/Due[3]/Partitions.12.ExpirationEpochs''"
  have b: "bracketsIndexOnly (slashToDot ?p)"
    by (simp add: slashToDot_def matchRe_def isDigit_def)
  have a: "\<not> adjacentSegments (replaceAllRe (slashToDot ?p))"
    by (simp add: slashToDot_def matchRe_def matchRe2_def isDigit_def)
  show ?thesis using b ResolveType_idem [OF b a] by simp
qed

text \<open>
  Counterexample to C1 as stated: the two numeric segments of \<open>a.1.2.b\<close> share a dot,
  one scan removes only the first, and a second resolution removes the other.
\<close>

theorem ResolveType_not_idempotent:
  "ResolveType (ResolveType ''a.1.2.b'') \<noteq> ResolveType ''a.1.2.b''
   \<and> ResolveType_sw (ResolveType_sw ''a.1.2.b'') \<noteq> ResolveType_sw ''a.1.2.b''"
  by (simp add: ResolveType_def ResolveType_sw_def slashToDot_def matchRe2_def matchRe_def
      isDigit_def LotusTypeAliases_def LotusTypeAliases_sw_def)

subsection \<open>The resolver of the switch-based revision\<close>

text \<open>
  The same holds for the resolver without the replacement of slashes, and the two
  resolvers agree on every path without a slash that is not one of the two aliases
  added later.
\<close>

lemma ResolveType_sw_plain:
  assumes "\<forall>c\<in>set s. \<not> isDigit c \<and> c \<noteq> CHR ''/''" and "map_of LotusTypeAliases_sw s = None"
  shows "ResolveType_sw s = s"
proof -
  from assms(1) have "CHR ''/'' \<notin> set s" by auto
  then have "slashToDot s = s" by (rule slashToDot_id)
  with plain_fixed [OF assms(1)] assms(2) show ?thesis by (simp add: ResolveType_sw_def)
qed

lemma alias_sw_targets_fixed:
  "(k, a) \<in> set LotusTypeAliases_sw \<Longrightarrow> ResolveType_sw a = a"
proof -
  have 1: "ResolveType_sw LotusTypeStateroot = LotusTypeStateroot"
    by (rule ResolveType_sw_plain)
      (simp_all add: LotusTypeStateroot_def isDigit_def LotusTypeAliases_sw_def)
  have 2: "ResolveType_sw InitActorAddresses = InitActorAddresses"
    by (rule ResolveType_sw_plain)
      (simp_all add: InitActorAddresses_def isDigit_def LotusTypeAliases_sw_def)
  have 3: "ResolveType_sw StoragePowerActorCronEventQueue = StoragePowerActorCronEventQueue"
    by (rule ResolveType_sw_plain)
      (simp_all add: StoragePowerActorCronEventQueue_def isDigit_def LotusTypeAliases_sw_def)
  have 4: "ResolveType_sw StoragePowerActorClaims = StoragePowerActorClaims"
    by (rule ResolveType_sw_plain)
      (simp_all add: StoragePowerActorClaims_def isDigit_def LotusTypeAliases_sw_def)
  assume "(k, a) \<in> set LotusTypeAliases_sw"
  then have "a \<in> {LotusTypeStateroot, InitActorAddresses, StoragePowerActorCronEventQueue,
      StoragePowerActorClaims}"
    unfolding LotusTypeAliases_sw_def by auto
  with 1 2 3 4 show ?thesis by auto
qed

lemma ResolveType_sw_idem:
  assumes "bracketsIndexOnly p" and "\<not> adjacentSegments (replaceAllRe p)"
  shows "ResolveType_sw (ResolveType_sw p) = ResolveType_sw p"
proof -
  define n where "n = replaceAllRe2 (replaceAllRe p)"
  have nb: "CHR ''['' \<notin> set n"
    using replaceAllRe_no_bracket [OF assms(1)] set_replaceAllRe2 [of "replaceAllRe p"]
    by (auto simp: n_def)
  have seg: "noSegment n"
    using replaceAllRe2_noSegment assms(2) by (simp add: n_def)
  have fixn: "replaceAllRe2 (replaceAllRe n) = n"
    using nb seg by (simp add: replaceAllRe_id replaceAllRe2_id)
  show ?thesis
  proof (cases "map_of LotusTypeAliases_sw n")
    case None
    then have "ResolveType_sw p = n" by (simp add: ResolveType_sw_def n_def)
    moreover have "ResolveType_sw n = n" using None fixn by (simp add: ResolveType_sw_def)
    ultimately show ?thesis by simp
  next
    case (Some a)
    then have "ResolveType_sw p = a" by (simp add: ResolveType_sw_def n_def)
    moreover have "ResolveType_sw a = a"
      using alias_sw_targets_fixed map_of_SomeD [OF Some] by blast
    ultimately show ?thesis by simp
  qed
qed

lemma resolvers_agree:
  assumes "CHR ''/'' \<notin> set as"
    and "replaceAllRe2 (replaceAllRe as) \<noteq> ''storageMinerActor.Deadlines.Due.ExpirationEpochs''"
    and "replaceAllRe2 (replaceAllRe as)
           \<noteq> ''storageMinerActor.Deadlines.Due.Partitions.ExpirationEpochs''"
  shows "ResolveType_sw as = ResolveType as"
proof -
  from assms(1) have "slashToDot as = as" by (rule slashToDot_id)
  moreover have "map_of LotusTypeAliases t = map_of LotusTypeAliases_sw t"
    if "t \<noteq> ''storageMinerActor.Deadlines.Due.ExpirationEpochs''"
      and "t \<noteq> ''storageMinerActor.Deadlines.Due.Partitions.ExpirationEpochs''" for t
    using that by (simp add: LotusTypeAliases_def LotusTypeAliases_sw_def)
  ultimately show ?thesis
    using assms(2,3) by (simp add: ResolveType_def ResolveType_sw_def)
qed

section \<open>The marshaler\<close>

lemma emit_recording: "emit recording s tks = (s @ tks, None)"
  by (induction tks arbitrary: s) (auto simp: recording_def)

text \<open>
  C5. For a node of link kind whose link is a CID link, when the marshaler has no loader
  or its loader returns no node for the CID at the current path, \<open>MarshalRecursive\<close>
  steps exactly the four tokens MapOpen(1), String "/", String of the CID's text,
  MapClose into the sink, stopping only if the sink fails; into a sink that accepts
  them it returns no error. For a link of any other kind it steps nothing and returns
  an error. Any positive bound on the depth suffices.
\<close>

theorem unresolved_link_four_tokens:
  "((Loader d = None \<or> (\<exists>load. Loader d = Some load \<and> load c (Path d) = None)) \<longrightarrow>
      MarshalRecursive L step (Suc fuel) d (NLink (CidLink c)) s
        = Some (emit step s [TMapOpen 1, TString ''/'', TString (cidString L c), TMapClose])
      \<and> MarshalRecursive L recording (Suc fuel) d (NLink (CidLink c)) ts
        = Some (ts @ [TMapOpen 1, TString ''/'', TString (cidString L c), TMapClose], None))
   \<and> MarshalRecursive L step (Suc fuel) d (NLink (OtherLink x)) s
        = Some (s, Some (Errorf
            ''schemafree link emission only supported by this codec for CID type links''))"
proof -
  have any: "MarshalRecursive L st (Suc fuel) d (NLink (CidLink c)) z
        = Some (emit st z [TMapOpen 1, TString ''/'', TString (cidString L c), TMapClose])"
    if "Loader d = None \<or> (\<exists>load. Loader d = Some load \<and> load c (Path d) = None)"
    for st :: "'c sink" and z
    using that by (auto simp del: emit.simps)
  have other: "MarshalRecursive L step (Suc fuel) d (NLink (OtherLink x)) s
        = Some (s, Some (Errorf
            ''schemafree link emission only supported by this codec for CID type links''))"
    by simp
  show ?thesis
    using any [of step s] any [of recording ts] other
    by (simp only: emit_recording) blast
qed

text \<open>
  Witness for C5: without a loader, the link to \<open>bafyEXAMPLE\<close> gives the four tokens.
\<close>

theorem unresolved_link_four_tokens_witness:
  "Loader \<lparr>Loader = None, Path = []\<rparr> = None
   \<and> MarshalRecursive plainLib recording 1 \<lparr>Loader = None, Path = []\<rparr>
        (NLink (CidLink ''bafyEXAMPLE'')) []
      = Some ([TMapOpen 1, TString ''/'', TString ''bafyEXAMPLE'', TMapClose], None)"
  using unresolved_link_four_tokens
    [of "\<lparr>Loader = None, Path = []\<rparr>" "''bafyEXAMPLE''" plainLib recording 0 "[]" "[]"]
  by (simp add: plainLib_def)

subsection \<open>A larger depth bound changes no result\<close>

lemma marshalMapEntries_mono:
  assumes "\<And>d v s r. rec d v s = Some r \<Longrightarrow> rec' d v s = Some r"
  shows "marshalMapEntries L step rec d kvs s = Some r
         \<Longrightarrow> marshalMapEntries L step rec' d kvs s = Some r"
proof (induction kvs arbitrary: s)
  case Nil
  then show ?case by simp
next
  case (Cons kv kvs)
  obtain k v where kv: "kv = (k, v)" by (cases kv)
  show ?case
  proof (cases "renderString L k")
    case (Inl err)
    with Cons.prems kv show ?thesis by simp
  next
    case (Inr str)
    obtain s1 e1 where st: "step s (TString str) = (s1, e1)" by (cases "step s (TString str)")
    show ?thesis
    proof (cases e1)
      case (Some err)
      with Cons.prems kv Inr st show ?thesis by auto
    next
      case None
      let ?next = "d\<lparr>Path := AppendSegment (Path d) (PathSegmentOfString str)\<rparr>"
      from Cons.prems kv Inr st None obtain s2 e2 where r2: "rec ?next v s1 = Some (s2, e2)"
        by (cases "rec ?next v s1") (auto simp: Let_def)
      then have r2': "rec' ?next v s1 = Some (s2, e2)" by (rule assms)
      show ?thesis
      proof (cases e2)
        case (Some err)
        with Cons.prems kv Inr st None r2 r2' show ?thesis by (auto simp: Let_def)
      next
        case None2: None
        from Cons.prems kv Inr st None r2 None2
        have "marshalMapEntries L step rec d kvs s2 = Some r" by (simp add: Let_def)
        then have "marshalMapEntries L step rec' d kvs s2 = Some r" by (rule Cons.IH)
        with kv Inr st None r2' None2 show ?thesis by (simp add: Let_def)
      qed
    qed
  qed
qed

lemma marshalListItems_mono:
  assumes "\<And>d v s r. rec d v s = Some r \<Longrightarrow> rec' d v s = Some r"
  shows "marshalListItems rec d vs i s = Some r
         \<Longrightarrow> marshalListItems rec' d vs i s = Some r"
proof (induction vs arbitrary: i s)
  case Nil
  then show ?case by simp
next
  case (Cons v vs)
  from Cons.prems obtain s1 e1 where r1: "rec d v s = Some (s1, e1)"
    by (cases "rec d v s") (auto simp: Let_def)
  then have r1': "rec' d v s = Some (s1, e1)" by (rule assms)
  show ?case
  proof (cases e1)
    case (Some err)
    with Cons.prems r1 r1' show ?thesis by (auto simp: Let_def)
  next
    case None
    with Cons.prems r1 have "marshalListItems rec d vs (i + 1) s1 = Some r"
      by (simp add: Let_def)
    then have "marshalListItems rec' d vs (i + 1) s1 = Some r" by (rule Cons.IH)
    with r1' None show ?thesis by (simp add: Let_def)
  qed
qed

lemma MarshalRecursive_Suc:
  "MarshalRecursive L step fuel d n s = Some r
   \<Longrightarrow> MarshalRecursive L step (Suc fuel) d n s = Some r"
proof (induction fuel arbitrary: d n s r)
  case 0
  then show ?case by simp
next
  case (Suc fuel)
  have rec: "\<And>d v s r. MarshalRecursive L step fuel d v s = Some r
               \<Longrightarrow> MarshalRecursive L step (Suc fuel) d v s = Some r"
    using Suc.IH by blast
  note unf = MarshalRecursive.simps(2)
  show ?case
  proof (cases n)
    case (NMap kvs)
    obtain s1 e1 where st: "step s (TMapOpen (int (length kvs))) = (s1, e1)"
      by (cases "step s (TMapOpen (int (length kvs)))")
    show ?thesis
    proof (cases e1)
      case (Some err)
      with Suc.prems NMap st show ?thesis
        by (auto simp: unf [of L step fuel] unf [of L step "Suc fuel"])
    next
      case None
      from Suc.prems NMap st None obtain r1 where
        m: "marshalMapEntries L step (MarshalRecursive L step fuel) d kvs s1 = Some r1"
        by (cases "marshalMapEntries L step (MarshalRecursive L step fuel) d kvs s1")
          (auto simp: unf [of L step fuel])
      have m': "marshalMapEntries L step (MarshalRecursive L step (Suc fuel)) d kvs s1 = Some r1"
        using marshalMapEntries_mono [OF rec m] .
      from Suc.prems NMap st None m
      have "(case r1 of (s2, Some err) \<Rightarrow> Some (s2, Some err)
                      | (s2, None) \<Rightarrow> Some (step s2 TMapClose)) = Some r"
        by (simp add: unf [of L step fuel])
      with NMap st None m' show ?thesis
        by (simp add: unf [of L step "Suc fuel"])
    qed
  next
    case (NList vs)
    obtain s1 e1 where st: "step s (TArrOpen (int (length vs))) = (s1, e1)"
      by (cases "step s (TArrOpen (int (length vs)))")
    show ?thesis
    proof (cases e1)
      case (Some err)
      with Suc.prems NList st show ?thesis
        by (auto simp: unf [of L step fuel] unf [of L step "Suc fuel"])
    next
      case None
      from Suc.prems NList st None obtain r1 where
        m: "marshalListItems (MarshalRecursive L step fuel) d vs 0 s1 = Some r1"
        by (cases "marshalListItems (MarshalRecursive L step fuel) d vs 0 s1")
          (auto simp: unf [of L step fuel])
      have m': "marshalListItems (MarshalRecursive L step (Suc fuel)) d vs 0 s1 = Some r1"
        using marshalListItems_mono [OF rec m] .
      from Suc.prems NList st None m
      have "(case r1 of (s2, Some err) \<Rightarrow> Some (s2, Some err)
                      | (s2, None) \<Rightarrow> Some (step s2 TArrClose)) = Some r"
        by (simp add: unf [of L step fuel])
      with NList st None m' show ?thesis
        by (simp add: unf [of L step "Suc fuel"])
    qed
  next
    case (NLink l)
    show ?thesis
    proof (cases l)
      case (OtherLink x)
      with Suc.prems NLink show ?thesis
        by (simp add: unf [of L step fuel] unf [of L step "Suc fuel"])
    next
      case (CidLink c)
      show ?thesis
      proof (cases "case Loader d of None \<Rightarrow> None | Some load \<Rightarrow> load c (Path d)")
        case None
        with Suc.prems NLink CidLink show ?thesis
          by (simp add: unf [of L step fuel] unf [of L step "Suc fuel"] del: emit.simps)
      next
        case (Some X)
        with Suc.prems NLink CidLink have "MarshalRecursive L step fuel d X s = Some r"
          by (simp add: unf [of L step fuel] Let_def)
        then have "MarshalRecursive L step (Suc fuel) d X s = Some r" by (rule rec)
        with NLink CidLink Some show ?thesis
          by (simp add: unf [of L step "Suc fuel"] Let_def del: MarshalRecursive.simps)
      qed
    qed
  qed (use Suc.prems in \<open>simp_all add: unf [of L step fuel] unf [of L step "Suc fuel"]\<close>)
qed

lemma MarshalRecursive_more:
  "MarshalRecursive L step fuel d n s = Some r
   \<Longrightarrow> MarshalRecursive L step (fuel + k) d n s = Some r"
  by (induction k) (auto dest: MarshalRecursive_Suc simp del: MarshalRecursive.simps)

text \<open>
  C6. When the loader resolves the CID of a link node to a node \<open>X\<close>, marshaling the
  link node is marshaling \<open>X\<close> with the same marshaler and sink: the same tokens, the
  same error, and no link wrapper; whatever marshaling \<open>X\<close> returns within some depth,
  marshaling the link returns within any larger depth.
\<close>

theorem resolved_link_inlined:
  assumes "Loader d = Some load" and "load c (Path d) = Some X"
  shows "MarshalRecursive L step (Suc fuel) d (NLink (CidLink c)) s
           = MarshalRecursive L step fuel d X s
         \<and> (MarshalRecursive L step fuel d X s = Some r \<longrightarrow>
              MarshalRecursive L step (Suc (fuel + k)) d (NLink (CidLink c)) s = Some r)"
proof -
  have inl: "MarshalRecursive L step (Suc f) d (NLink (CidLink c)) s
           = MarshalRecursive L step f d X s" for f
    using assms by (simp add: Let_def)
  have "MarshalRecursive L step (fuel + k) d X s = Some r"
    if "MarshalRecursive L step fuel d X s = Some r"
    using that by (rule MarshalRecursive_more)
  then show ?thesis
    using inl [of fuel] inl [of "fuel + k"] by (simp del: MarshalRecursive.simps)
qed

text \<open>
  Witness for C6: a loader resolves \<open>C\<close> to a list of two scalars; the link to
  \<open>C\<close> and the list itself give the same four tokens.
\<close>

theorem resolved_link_inlined_witness:
  "Loader \<lparr>Loader = Some (\<lambda>c p. if c = ''C'' then Some (NList [NInt 1, NNull]) else None),
           Path = []\<rparr>
     = Some (\<lambda>c p. if c = ''C'' then Some (NList [NInt 1, NNull]) else None)
   \<and> MarshalRecursive plainLib recording 3
        \<lparr>Loader = Some (\<lambda>c p. if c = ''C'' then Some (NList [NInt 1, NNull]) else None),
         Path = []\<rparr> (NLink (CidLink ''C'')) []
      = Some ([TArrOpen 2, TInt 1, TNull, TArrClose], None)
   \<and> MarshalRecursive plainLib recording 2
        \<lparr>Loader = Some (\<lambda>c p. if c = ''C'' then Some (NList [NInt 1, NNull]) else None),
         Path = []\<rparr> (NList [NInt 1, NNull]) []
      = Some ([TArrOpen 2, TInt 1, TNull, TArrClose], None)"
proof -
  let ?load = "\<lambda>(c::cid) (p::path). if c = ''C'' then Some (NList [NInt 1, NNull]) else None"
  let ?d = "\<lparr>Loader = Some ?load, Path = []\<rparr>"
  have l: "Loader ?d = Some ?load" by simp
  have x: "?load ''C'' (Path ?d) = Some (NList [NInt 1, NNull])" by simp
  have direct: "MarshalRecursive plainLib recording 2 ?d (NList [NInt 1, NNull]) []
      = Some ([TArrOpen 2, TInt 1, TNull, TArrClose], None)"
    by (simp add: numeral_2_eq_2 recording_def Let_def)
  from resolved_link_inlined [OF l x, of plainLib recording 2 "[]"] direct l
  show ?thesis by (simp only: numeral_3_eq_3 numeral_2_eq_2)
qed

text \<open>
  C7 says that each element of a list is marshaled with the path extended by its index.
  The code does not: the loader below resolves a CID only at the path \<open>[0]\<close>, the
  link is the element 0 of a list marshaled at the empty path, and the link is not
  resolved, because the loader is asked at the empty path. In a map, where the extended
  path is assigned, the same link under the key \<open>k\<close> is resolved at the path \<open>[k]\<close>.
\<close>

theorem list_element_path_not_extended:
  "MarshalRecursive plainLib recording 3
     \<lparr>Loader = Some (\<lambda>c p. if p = [PathSegmentOfInt 0] then Some NNull else None), Path = []\<rparr>
     (NList [NLink (CidLink ''C'')]) []
   = Some ([TArrOpen 1, TMapOpen 1, TString ''/'', TString ''C'', TMapClose, TArrClose], None)
   \<and> MarshalRecursive plainLib recording 3
     \<lparr>Loader = Some (\<lambda>c p. if p = [PathSegmentOfString ''k''] then Some NNull else None),
      Path = []\<rparr>
     (NMap [(NString StringPlain ''k'', NLink (CidLink ''C''))]) []
   = Some ([TMapOpen 1, TString ''k'', TNull, TMapClose], None)"
  by (simp add: numeral_3_eq_3 recording_def plainLib_def Let_def renderString_def
      AppendSegment_def)

text \<open>The index of the loop over a list has no effect on what is marshaled.\<close>

lemma marshalListItems_index:
  "marshalListItems rec d vs i s = marshalListItems rec d vs j s"
proof (induction vs arbitrary: i j s)
  case Nil
  then show ?case by simp
next
  case (Cons v vs)
  have "marshalListItems rec d vs (i + 1) s1 = marshalListItems rec d vs (j + 1) s1" for s1
    by (rule Cons.IH)
  then show ?case by (auto simp: Let_def split: option.splits prod.splits)
qed

subsection \<open>Bit fields\<close>

text \<open>
  A bytes node of type \<open>BitField\<close> is decoded by \<open>NewFromBytes\<close> and, if that
  fails, by \<open>UnmarshalCBOR\<close>; when one of them succeeds, six tokens are stepped into
  the sink, the fifth being the hex string of what \<open>MarshalCBOR\<close> wrote. The error
  of \<open>MarshalCBOR\<close> is not looked at.
\<close>

lemma bitfield_node_tokens:
  assumes "(case bitfieldFromBytes L v of Inr b \<Rightarrow> Inr b | Inl err \<Rightarrow> bitfieldUnmarshalCBOR L v)
             = Inr b"
  shows "MarshalRecursive L step (Suc fuel) d (NBytes BitField v) s
     = Some (emit step s
         [TMapOpen 2, TString ''_type'', TString ''bitfield'', TString ''bytes'',
          TString (hexEncode (fst (bitfieldMarshalCBOR L b))), TMapClose])"
  using assms by (simp del: emit.simps)

section \<open>The decoder\<close>

lemmas LotusType_defs =
  LotusTypeTipset_def
  LotusTypeStateroot_def
  AccountActorState_def
  CronActorState_def
  InitActorState_def
  InitActorAddresses_def
  MarketActorState_def
  MarketActorProposals_def
  MarketActorStates_def
  MarketActorPendingProposals_def
  MarketActorEscrowTable_def
  MarketActorLockedTable_def
  MarketActorDealOpsByEpoch_def
  MultisigActorState_def
  MultisigActorPending_def
  StorageMinerActorState_def
  StorageMinerActorInfo_def
  StorageMinerActorVestingFunds_def
  StorageMinerActorPreCommittedSectors_def
  StorageMinerActorPreCommittedSectorsExpiry_def
  StorageMinerActorAllocatedSectors_def
  StorageMinerActorSectors_def
  StorageMinerActorDeadlines_def
  StorageMinerActorDeadline_def
  StorageMinerActorDeadlinePartitions_def
  StorageMinerActorDeadlinePartitionExpiry_def
  StorageMinerActorDeadlinePartitionEarly_def
  StorageMinerActorDeadlineExpiry_def
  StoragePowerActorState_def
  StoragePowerActorCronEventQueue_def
  StoragePowerActorClaims_def
  RewardActorState_def
  VerifiedRegistryActorState_def
  VerifiedRegistryActorVerifiers_def
  VerifiedRegistryActorVerifiedClients_def
  PaymentChannelActorState_def
  PaymentChannelActorLaneStates_def

lemmas transform_defs =
  transformStateRoot_def
  transformInitActor_def
  transformMinerActorPreCommittedSectors_def
  transformMinerActorBitfieldHamt_def
  transformMinerActorSectors_def
  transformMinerActorDeadlinePartitions_def
  transformMinerActorDeadlinePartitionExpiry_def
  transformPowerActorEventQueue_def
  transformPowerActorClaims_def
  transformVerifiedRegistryDataCaps_def
  transformMarketPendingProposals_def
  transformMarketProposals_def
  transformMarketStates_def
  transformMarketBalanceTable_def
  transformMarketDealOpsByEpoch_def
  transformMultisigPending_def
  transformPaymentChannelLaneStates_def

lemmas transform_sw_defs =
  transformStateRoot_sw_def
  transformInitActor_sw_def
  transformMinerActorPreCommittedSectors_sw_def
  transformMinerActorPreCommittedSectorsExpiry_sw_def
  transformMinerActorSectors_sw_def
  transformMinerActorDeadlinePartitions_sw_def
  transformMinerActorDeadlinePartitionExpiry_sw_def
  transformMinerActorDeadlineExpiry_sw_def
  transformPowerActorEventQueue_sw_def
  transformPowerActorClaims_sw_def
  transformVerifiedRegistryDataCaps_sw_def
  transformMarketPendingProposals_sw_def
  transformMarketProposals_sw_def
  transformMarketStates_sw_def
  transformMarketBalanceTable_sw_def
  transformMarketDealOpsByEpoch_sw_def
  transformMultisigPending_sw_def
  transformPaymentChannelLaneStates_sw_def

lemmas asm_defs = decodeMap_def andThen_def BeginMap_def BeginList_def AssembleEntry_def
  assign_def AssignNode_def AssignInt_def AssignBytes_def Finish_def Build_def NewBuilder_def

lemmas entry_defs = hamtNodeEntry_def hamtIntEntry_def hamtBytesEntry_def arrayNodeEntry_def
  arrayBytesEntry_def eventQueueEntry_def dealOpsEntry_def dealIDEntry_def asCBORBytes_def

lemmas resolve_defs = ResolveType_def slashToDot_def matchRe_def matchRe2_def isDigit_def
  LotusTypeAliases_def

lemmas resolve_sw_defs = ResolveType_sw_def matchRe_def matchRe2_def isDigit_def
  LotusTypeAliases_sw_def

lemmas table_defs = LotusPrototypes_def complexLoaders_def complexTransforms_sw_def
  blockPrototypes_sw_def

lemmas eval_defs = transform_defs transform_sw_defs entry_defs asm_defs decodeMap_sw_def
  decodeMapUnchecked_sw_def demoWorld_def bigEndian_def decimalNat.simps decimalInt_def

subsection \<open>Load\<close>

lemma complexLoaders_distinct: "distinct (map fst complexLoaders)"
  by (simp add: complexLoaders_def)

lemma Prototype_NewBuilder: "Prototype (NewBuilder p) = p"
  by (simp add: NewBuilder_def)

text \<open>
  C4. \<open>Load\<close> dispatches on the prototype of the assembler: a prototype registered in
  \<open>complexLoaders\<close> gets exactly the decoder registered for it, called with the CID,
  the store and the assembler, and its result is returned; for any other prototype the
  block is fetched and decoded as one CBOR document into the assembler, and an error of
  the store or of the decoder is returned as it is.
\<close>

theorem Load_dispatch:
  "((p, complexLoader) \<in> set complexLoaders \<and> Prototype into = p \<longrightarrow>
       Load W c into = complexLoader W c into)
   \<and> (Prototype into \<notin> fst ` set complexLoaders \<longrightarrow>
       Load W c into =
         (case Get W c of
            Inl err \<Rightarrow> (into, Some err)
          | Inr data \<Rightarrow>
              (case dagcborDecoder W (Prototype into) data of
                 Inl err \<Rightarrow> (into, Some err)
               | Inr n \<Rightarrow> (into\<lparr>State := Finished n\<rparr>, None))))"
proof -
  have "Load W c into = complexLoader W c into"
    if "(p, complexLoader) \<in> set complexLoaders" and "Prototype into = p"
  proof -
    have "map_of complexLoaders p = Some complexLoader"
      using complexLoaders_distinct that(1) by (rule map_of_is_SomeI)
    with that(2) show ?thesis by (simp add: Load_def)
  qed
  moreover have "Load W c into =
         (case Get W c of
            Inl err \<Rightarrow> (into, Some err)
          | Inr data \<Rightarrow>
              (case dagcborDecoder W (Prototype into) data of
                 Inl err \<Rightarrow> (into, Some err)
               | Inr n \<Rightarrow> (into\<lparr>State := Finished n\<rparr>, None)))"
    if "Prototype into \<notin> fst ` set complexLoaders"
  proof -
    from that have "map_of complexLoaders (Prototype into) = None"
      by (simp add: map_of_eq_None_iff)
    then show ?thesis by (simp add: Load_def)
  qed
  ultimately show ?thesis by blast
qed

text \<open>
  Witness for C4: a registered prototype, and a prototype with no decoder on a block
  that is present and on one that is missing.
\<close>

theorem Load_dispatch_witness:
  "(Map__MarketV0DealProposal__Repr, transformMarketProposals) \<in> set complexLoaders
   \<and> Load demoWorld ''amt'' (NewBuilder Map__MarketV0DealProposal__Repr)
       = transformMarketProposals demoWorld ''amt'' (NewBuilder Map__MarketV0DealProposal__Repr)
   \<and> Prototype (NewBuilder AccountV0State__Repr) \<notin> fst ` set complexLoaders
   \<and> Load demoWorld ''flat'' (NewBuilder AccountV0State__Repr)
       = (\<lparr>Prototype = AccountV0State__Repr, State = Finished (NBytes BytesPlain ''payload'')\<rparr>,
          None)
   \<and> Load demoWorld ''gone'' (NewBuilder AccountV0State__Repr)
       = (NewBuilder AccountV0State__Repr, Some (External ''blockstore: block not found''))"
proof -
  have m: "(Map__MarketV0DealProposal__Repr, transformMarketProposals) \<in> set complexLoaders"
    by (simp add: complexLoaders_def)
  have f: "Prototype (NewBuilder AccountV0State__Repr) \<notin> fst ` set complexLoaders"
    by (simp add: complexLoaders_def NewBuilder_def)
  show ?thesis
    using m f
      Load_dispatch [of Map__MarketV0DealProposal__Repr transformMarketProposals
        "NewBuilder Map__MarketV0DealProposal__Repr" demoWorld "''amt''"]
      Load_dispatch [of Map__MarketV0DealProposal__Repr transformMarketProposals
        "NewBuilder AccountV0State__Repr" demoWorld "''flat''"]
      Load_dispatch [of Map__MarketV0DealProposal__Repr transformMarketProposals
        "NewBuilder AccountV0State__Repr" demoWorld "''gone''"]
    by (simp add: NewBuilder_def demoWorld_def)
qed

subsection \<open>Transform\<close>

lemma Finish_success: "Finish W a = (a', None) \<Longrightarrow> \<exists>n. State a' = Finished n"
  by (auto simp: Finish_def split: asmState.splits option.splits)

lemma decodeMap_success:
  "decodeMap W loaded callback a = (a', None) \<Longrightarrow> \<exists>n. State a' = Finished n"
  by (auto simp: decodeMap_def andThen_def split: sum.splits prod.splits option.splits
      dest: Finish_success)

lemma complexLoaders_success:
  assumes "(p, complexLoader) \<in> set complexLoaders" and "complexLoader W c a = (a', None)"
  shows "\<exists>n. State a' = Finished n"
  using assms unfolding complexLoaders_def
  by (auto simp: transform_defs dest: decodeMap_success)

lemma Load_success: "Load W c a = (a', None) \<Longrightarrow> \<exists>n. State a' = Finished n"
  by (auto simp: Load_def Let_def split: option.splits sum.splits
      dest: map_of_SomeD complexLoaders_success)

text \<open>
  C3. A type path whose resolved key has no prototype makes \<open>Transform\<close> return the
  "unknown type" error and no node. For a registered key a fresh builder of the
  prototype is loaded; an error of \<open>Load\<close> is returned as it is, and when \<open>Load\<close>
  returns none the builder is finished and its node is returned.
\<close>

theorem Transform_result:
  "(map_of LotusPrototypes (ResolveType as) = None \<longrightarrow>
      Transform W c as = Inl (Errorf (''unknown type: '' @ as)))
   \<and> (map_of LotusPrototypes (ResolveType as) = Some p \<longrightarrow>
        (case Load W c (NewBuilder p) of
           (a, Some err) \<Rightarrow> Transform W c as = Inl err
         | (a, None) \<Rightarrow> (\<exists>n. State a = Finished n \<and> Transform W c as = Inr n)))"
proof -
  have "\<exists>n. State a = Finished n \<and> Transform W c as = Inr n"
    if "map_of LotusPrototypes (ResolveType as) = Some p" and "Load W c (NewBuilder p) = (a, None)"
    for a
  proof -
    from that(2) obtain n where "State a = Finished n" using Load_success by blast
    with that show ?thesis by (simp add: Transform_def Build_def)
  qed
  moreover have "Transform W c as = Inl err"
    if "map_of LotusPrototypes (ResolveType as) = Some p"
      and "Load W c (NewBuilder p) = (a, Some err)" for a err
    using that by (simp add: Transform_def)
  ultimately show ?thesis
    by (auto simp: Transform_def split: prod.splits option.splits)
qed

lemma ResolveType_bogus: "ResolveType ''bogus.path'' = ''bogus.path''"
  by (simp add: resolve_defs)

lemma ResolveType_accountActor: "ResolveType ''accountActor'' = AccountActorState"
  by (simp add: resolve_defs AccountActorState_def)

lemma LotusPrototypes_bogus: "map_of LotusPrototypes ''bogus.path'' = None"
  by (simp add: LotusPrototypes_def LotusType_defs)

lemma LotusPrototypes_accountActor:
  "map_of LotusPrototypes AccountActorState = Some AccountV0State__Repr"
  by (simp add: LotusPrototypes_def LotusType_defs)

text \<open>
  Witness for C3: \<open>bogus.path\<close> is unknown; \<open>accountActor\<close> is decoded from a block
  that is present and fails on one that is missing.
\<close>

theorem Transform_result_witness:
  "map_of LotusPrototypes (ResolveType ''bogus.path'') = None
   \<and> Transform demoWorld ''flat'' ''bogus.path'' = Inl (Errorf ''unknown type: bogus.path'')
   \<and> map_of LotusPrototypes (ResolveType ''accountActor'') = Some AccountV0State__Repr
   \<and> Transform demoWorld ''flat'' ''accountActor'' = Inr (NBytes BytesPlain ''payload'')
   \<and> Transform demoWorld ''gone'' ''accountActor''
        = Inl (External ''blockstore: block not found'')"
proof -
  have l1: "Load demoWorld ''flat'' (NewBuilder AccountV0State__Repr)
      = (\<lparr>Prototype = AccountV0State__Repr, State = Finished (NBytes BytesPlain ''payload'')\<rparr>,
         None)"
    by (simp add: Load_def complexLoaders_def NewBuilder_def demoWorld_def)
  have l2: "Load demoWorld ''gone'' (NewBuilder AccountV0State__Repr)
      = (NewBuilder AccountV0State__Repr, Some (External ''blockstore: block not found''))"
    by (simp add: Load_def complexLoaders_def NewBuilder_def demoWorld_def)
  show ?thesis
    using Transform_result [of "''bogus.path''" demoWorld "''flat''" AccountV0State__Repr]
      Transform_result [of "''accountActor''" demoWorld "''flat''" AccountV0State__Repr]
      Transform_result [of "''accountActor''" demoWorld "''gone''" AccountV0State__Repr]
    by (simp add: ResolveType_bogus ResolveType_accountActor LotusPrototypes_bogus
        LotusPrototypes_accountActor l1 l2)
qed

subsection \<open>Errors during a visit\<close>

text \<open>
  The common frame returns the first error of the visit with the map as it was left,
  and does not finish it.
\<close>

lemma decodeMap_first_error:
  assumes "BeginMap W a = (m0, None)" and "ForEach it callback m0 = (m, Some err)"
  shows "decodeMap W (Inr it) callback a = (m, Some err)"
  using assms by (simp add: decodeMap_def andThen_def)

text \<open>
  Whenever a registered decoder returns an error, the assembler it was given holds no
  finished node.
\<close>

lemma AssembleEntry_unfinished:
  "unfinished a \<Longrightarrow> AssembleEntry W k a = (a', e) \<Longrightarrow> unfinished a'"
  by (auto simp: AssembleEntry_def unfinished_def split: asmState.splits option.splits)

lemma assign_unfinished:
  "unfinished a \<Longrightarrow> assign r a = (a', e) \<Longrightarrow> unfinished a'"
  by (auto simp: assign_def unfinished_def split: asmState.splits option.splits sum.splits)

lemma BeginMap_unfinished:
  "unfinished a \<Longrightarrow> BeginMap W a = (a', e) \<Longrightarrow> unfinished a'"
  by (auto simp: BeginMap_def unfinished_def split: asmState.splits option.splits)

lemma Finish_error_unfinished:
  "unfinished a \<Longrightarrow> Finish W a = (a', Some err) \<Longrightarrow> unfinished a'"
  by (auto simp: Finish_def unfinished_def split: asmState.splits option.splits)

lemma ForEach_unfinished:
  assumes "\<And>x a a' e. unfinished a \<Longrightarrow> callback x a = (a', e) \<Longrightarrow> unfinished a'"
  shows "unfinished a \<Longrightarrow> ForEach it callback a = (a', e) \<Longrightarrow> unfinished a'"
proof (induction it arbitrary: a)
  case Nil
  then show ?case by simp
next
  case (Cons r it)
  show ?case
  proof (cases r)
    case (Inl err)
    with Cons.prems show ?thesis by simp
  next
    case (Inr x)
    obtain a1 e1 where c: "callback x a = (a1, e1)" by (cases "callback x a")
    from assms [OF Cons.prems(1) c] have u: "unfinished a1" .
    show ?thesis
    proof (cases e1)
      case None
      with Cons.prems(2) Inr c have "ForEach it callback a1 = (a', e)" by simp
      with Cons.IH u show ?thesis by blast
    next
      case (Some err)
      with Cons.prems(2) Inr c u show ?thesis by auto
    qed
  qed
qed

lemma decodeMap_error_unfinished:
  assumes "\<And>x a a' e. unfinished a \<Longrightarrow> callback x a = (a', e) \<Longrightarrow> unfinished a'"
    and "unfinished a" and "decodeMap W loaded callback a = (a', Some err)"
  shows "unfinished a'"
proof (cases loaded)
  case (Inl e)
  with assms(2,3) show ?thesis by (simp add: decodeMap_def)
next
  case (Inr it)
  obtain m0 e0 where b: "BeginMap W a = (m0, e0)" by (cases "BeginMap W a")
  from BeginMap_unfinished [OF assms(2) b] have u0: "unfinished m0" .
  show ?thesis
  proof (cases e0)
    case (Some e)
    with assms(3) Inr b u0 show ?thesis by (auto simp: decodeMap_def andThen_def)
  next
    case None
    obtain m1 e1 where f: "ForEach it callback m0 = (m1, e1)"
      by (cases "ForEach it callback m0")
    from ForEach_unfinished [of callback, OF assms(1) u0 f] have u1: "unfinished m1" .
    show ?thesis
    proof (cases e1)
      case (Some e)
      with assms(3) Inr b None f u1 show ?thesis by (auto simp: decodeMap_def andThen_def)
    next
      case None2: None
      with assms(3) Inr b None f have "Finish W m1 = (a', Some err)"
        by (simp add: decodeMap_def andThen_def)
      with u1 show ?thesis by (rule Finish_error_unfinished)
    qed
  qed
qed

lemma entry_callbacks_unfinished:
  assumes "unfinished a"
  shows "hamtNodeEntry W key elem x a = (a', e) \<Longrightarrow> unfinished a'"
    and "hamtIntEntry W x a = (a', e) \<Longrightarrow> unfinished a'"
    and "hamtBytesEntry W x a = (a', e) \<Longrightarrow> unfinished a'"
    and "arrayNodeEntry W elem y a = (a', e) \<Longrightarrow> unfinished a'"
    and "arrayBytesEntry W y a = (a', e) \<Longrightarrow> unfinished a'"
    and "eventQueueEntry W z a = (a', e) \<Longrightarrow> unfinished a'"
    and "dealOpsEntry W u a = (a', e) \<Longrightarrow> unfinished a'"
  using assms
  by (auto simp: hamtNodeEntry_def hamtIntEntry_def hamtBytesEntry_def arrayNodeEntry_def
      arrayBytesEntry_def eventQueueEntry_def dealOpsEntry_def andThen_def
      AssignNode_def AssignInt_def AssignBytes_def Let_def
      split: prod.splits option.splits hamtValue.splits sum.splits
      dest: AssembleEntry_unfinished assign_unfinished)

lemma complexLoaders_error_unfinished:
  assumes "(p, complexLoader) \<in> set complexLoaders" and "unfinished a"
    and "complexLoader W c a = (a', Some err)"
  shows "unfinished a'"
proof -
  note cb = entry_callbacks_unfinished
  have d1: "unfinished a'"
    if "decodeMap W loaded (hamtNodeEntry W key elem) a = (a', Some err)" for loaded key elem
    using cb(1) assms(2) that by (rule decodeMap_error_unfinished)
  have d2: "unfinished a'"
    if "decodeMap W loaded (hamtIntEntry W) a = (a', Some err)" for loaded
    using cb(2) assms(2) that by (rule decodeMap_error_unfinished)
  have d3: "unfinished a'"
    if "decodeMap W loaded (hamtBytesEntry W) a = (a', Some err)" for loaded
    using cb(3) assms(2) that by (rule decodeMap_error_unfinished)
  have d4: "unfinished a'"
    if "decodeMap W loaded (arrayNodeEntry W elem) a = (a', Some err)" for loaded elem
    using cb(4) assms(2) that by (rule decodeMap_error_unfinished)
  have d5: "unfinished a'"
    if "decodeMap W loaded (arrayBytesEntry W) a = (a', Some err)" for loaded
    using cb(5) assms(2) that by (rule decodeMap_error_unfinished)
  have d6: "unfinished a'"
    if "decodeMap W loaded (eventQueueEntry W) a = (a', Some err)" for loaded
    using cb(6) assms(2) that by (rule decodeMap_error_unfinished)
  have d7: "unfinished a'"
    if "decodeMap W loaded (dealOpsEntry W) a = (a', Some err)" for loaded
    using cb(7) assms(2) that by (rule decodeMap_error_unfinished)
  from assms(1,3) show ?thesis
    unfolding complexLoaders_def
    by (auto simp: transformStateRoot_def transformInitActor_def
        transformMinerActorPreCommittedSectors_def transformMinerActorBitfieldHamt_def
        transformMinerActorSectors_def transformMinerActorDeadlinePartitions_def
        transformMinerActorDeadlinePartitionExpiry_def transformPowerActorEventQueue_def
        transformPowerActorClaims_def transformVerifiedRegistryDataCaps_def
        transformMarketPendingProposals_def transformMarketProposals_def
        transformMarketStates_def transformMarketBalanceTable_def
        transformMarketDealOpsByEpoch_def transformMultisigPending_def
        transformPaymentChannelLaneStates_def
        dest: d1 d2 d3 d4 d5 d6 d7)
qed

text \<open>
  C2 says that every structure decoder returns the first entry-level error and finishes
  nothing. \<open>transformMarketDealOpsByEpoch\<close> does not: the visit of the set under the
  key 7 reaches the deal 3 and then fails on a missing shard, the error is dropped, the
  list is finished with the one deal, and the decoder returns the map with no error. In
  the switch-based revision \<open>transformStateRoot\<close> drops the error of its visit in the
  same way; the decoder of the other revision returns it and leaves the map open.
\<close>

theorem dealOps_set_error_dropped:
  "AsSet demoWorld ''set''
     = Inr [Inr [CHR 0x03], Inl (External ''blockstore: block not found'')]
   \<and> transformMarketDealOpsByEpoch demoWorld ''table'' (NewBuilder Map__List__DealID__Repr)
     = (\<lparr>Prototype = Map__List__DealID__Repr,
         State = Finished (NMap [(NString StringPlain ''7'', NList [NInt 3])])\<rparr>, None)
   \<and> LoadNode demoWorld ''hamt-missing-shard''
     = Inr [Inr (''k'', Deferred ''a''), Inl (External ''blockstore: block not found'')]
   \<and> transformStateRoot_sw demoWorld ''hamt-missing-shard''
     = Inr (NMap [(NString StringPlain ''k'', NBytes BytesPlain ''a'')])
   \<and> transformStateRoot demoWorld ''hamt-missing-shard'' (NewBuilder Map__LotusActors__Repr)
     = (\<lparr>Prototype = Map__LotusActors__Repr,
         State = MapOpen [(''k'', NBytes BytesPlain ''a'')] None\<rparr>,
        Some (External ''blockstore: block not found''))"
  by (simp add: transform_defs transform_sw_defs entry_defs asm_defs decodeMap_sw_def
      decodeMapUnchecked_sw_def demoWorld_def bigEndian_def decimalNat.simps)

subsection \<open>Keys\<close>

lemma visited_simps [simp]:
  "visited [] = []"
  "visited (Inl err # it) = visited it"
  "visited (Inr x # it) = x # visited it"
  by (simp_all add: visited_def)

lemma ForEach_keyed:
  assumes "keyedBy key callback"
  shows "ForEach it callback a = (a', None) \<Longrightarrow> State a = MapOpen es None \<Longrightarrow>
         Prototype a' = Prototype a \<and>
         (\<exists>es'. State a' = MapOpen (es @ es') None \<and> map fst es' = map key (visited it))"
proof (induction it arbitrary: a es)
  case Nil
  then show ?case by simp
next
  case (Cons r it)
  show ?case
  proof (cases r)
    case (Inl err)
    with Cons.prems show ?thesis by simp
  next
    case (Inr x)
    obtain a1 e1 where c: "callback x a = (a1, e1)" by (cases "callback x a")
    with Cons.prems Inr have e1: "e1 = None" and rest: "ForEach it callback a1 = (a', None)"
      by (auto split: option.splits)
    from assms c e1 Cons.prems(2) obtain n where
      p1: "Prototype a1 = Prototype a" and s1: "State a1 = MapOpen (es @ [(key x, n)]) None"
      unfolding keyedBy_def by blast
    from Cons.IH [OF rest s1] obtain es' where
      "Prototype a' = Prototype a1" "State a' = MapOpen ((es @ [(key x, n)]) @ es') None"
      "map fst es' = map key (visited it)" by blast
    with p1 Inr show ?thesis by auto
  qed
qed

lemma decodeMap_keys:
  assumes "keyedBy key callback" and "decodeMap W (Inr it) callback a = (a', None)"
  shows "entryKeys a' = map key (visited it)"
proof -
  from assms(2) obtain m0 m1 where
    b: "BeginMap W a = (m0, None)" and f: "ForEach it callback m0 = (m1, None)"
    and fin: "Finish W m1 = (a', None)"
    by (auto simp: decodeMap_def andThen_def split: prod.splits option.splits)
  from b have "State m0 = MapOpen [] None"
    by (auto simp: BeginMap_def split: asmState.splits option.splits)
  from ForEach_keyed [OF assms(1) f this] obtain es where
    "State m1 = MapOpen es None" "map fst es = map key (visited it)" by auto
  with fin show ?thesis
    by (auto simp: Finish_def entryKeys_def split: option.splits simp: comp_def case_prod_beta)
qed

lemma assign_keyed:
  "assign r a = (a', None) \<Longrightarrow> State a = MapOpen es (Some k) \<Longrightarrow>
   Prototype a' = Prototype a \<and> (\<exists>n. State a' = MapOpen (es @ [(k, n)]) None)"
  by (auto simp: assign_def split: sum.splits)

lemma AssembleEntry_keyed:
  "AssembleEntry W k a = (v, None) \<Longrightarrow> State a = MapOpen es None \<Longrightarrow>
   Prototype v = Prototype a \<and> State v = MapOpen es (Some k)"
  by (auto simp: AssembleEntry_def split: option.splits)

lemma keyed_frame:
  assumes "\<And>x v v'. body x v = (v', None) \<Longrightarrow>
             \<exists>r. assign r v = (v', None)"
  shows "keyedBy key (\<lambda>x mapper. andThen (AssembleEntry W (key x) mapper) (body x))"
  unfolding keyedBy_def
proof (intro allI impI)
  fix x a a' es
  assume c: "andThen (AssembleEntry W (key x) a) (body x) = (a', None)"
    and s: "State a = MapOpen es None"
  then obtain v where ae: "AssembleEntry W (key x) a = (v, None)" and b: "body x v = (a', None)"
    by (auto simp: andThen_def split: prod.splits option.splits)
  from AssembleEntry_keyed [OF ae s] have pv: "Prototype v = Prototype a"
    and sv: "State v = MapOpen es (Some (key x))" by auto
  from assms [OF b] obtain r where "assign r v = (a', None)" by auto
  from assign_keyed [OF this sv] pv
  show "Prototype a' = Prototype a \<and> (\<exists>n. State a' = MapOpen (es @ [(key x, n)]) None)"
    by auto
qed

lemma hamtNodeEntry_keyed: "keyedBy (\<lambda>(k, val). key k) (hamtNodeEntry W key elem)"
proof -
  have "keyedBy (\<lambda>(k, val). key k)
     (\<lambda>x mapper. andThen (AssembleEntry W ((\<lambda>(k, val). key k) x) mapper)
        (\<lambda>v. case snd x of
            NotDeferred \<Rightarrow> (v, Some (Errorf ''unexpected non-cbg.Deferred''))
          | Deferred raw \<Rightarrow>
              (case dagcborDecoder W elem raw of
                 Inl err \<Rightarrow> (v, Some err)
               | Inr actor \<Rightarrow> AssignNode W actor v)))"
    by (rule keyed_frame) (auto simp: AssignNode_def split: hamtValue.splits sum.splits intro: exI)
  moreover have "hamtNodeEntry W key elem = (\<lambda>x mapper. andThen (AssembleEntry W ((\<lambda>(k, val). key k) x) mapper)
        (\<lambda>v. case snd x of
            NotDeferred \<Rightarrow> (v, Some (Errorf ''unexpected non-cbg.Deferred''))
          | Deferred raw \<Rightarrow>
              (case dagcborDecoder W elem raw of
                 Inl err \<Rightarrow> (v, Some err)
               | Inr actor \<Rightarrow> AssignNode W actor v)))"
    by (auto simp: hamtNodeEntry_def fun_eq_iff)
  ultimately show ?thesis by simp
qed

lemma hamtIntEntry_keyed: "keyedBy fst (hamtIntEntry W)"
proof -
  have "keyedBy fst
     (\<lambda>x mapper. andThen (AssembleEntry W (fst x) mapper)
        (\<lambda>v. case snd x of
            NotDeferred \<Rightarrow> (v, Some (Errorf ''unexpected non-cbg.Deferred''))
          | Deferred raw \<Rightarrow>
              (case DecodeInto W raw of
                 Inl err \<Rightarrow> (v, Some err)
               | Inr actorID \<Rightarrow> AssignInt W actorID v)))"
    by (rule keyed_frame) (auto simp: AssignInt_def split: hamtValue.splits sum.splits intro: exI)
  moreover have "hamtIntEntry W = (\<lambda>x mapper. andThen (AssembleEntry W (fst x) mapper)
        (\<lambda>v. case snd x of
            NotDeferred \<Rightarrow> (v, Some (Errorf ''unexpected non-cbg.Deferred''))
          | Deferred raw \<Rightarrow>
              (case DecodeInto W raw of
                 Inl err \<Rightarrow> (v, Some err)
               | Inr actorID \<Rightarrow> AssignInt W actorID v)))"
    by (auto simp: hamtIntEntry_def fun_eq_iff)
  ultimately show ?thesis by simp
qed

lemma hamtBytesEntry_keyed: "keyedBy fst (hamtBytesEntry W)"
proof -
  have "keyedBy fst
     (\<lambda>x mapper. andThen (AssembleEntry W (fst x) mapper)
        (\<lambda>v. case snd x of
            NotDeferred \<Rightarrow> (v, Some (Errorf ''unexpected non-cbg.Deferred''))
          | Deferred raw \<Rightarrow> AssignBytes W raw v))"
    by (rule keyed_frame) (auto simp: AssignBytes_def split: hamtValue.splits intro: exI)
  moreover have "hamtBytesEntry W = (\<lambda>x mapper. andThen (AssembleEntry W (fst x) mapper)
        (\<lambda>v. case snd x of
            NotDeferred \<Rightarrow> (v, Some (Errorf ''unexpected non-cbg.Deferred''))
          | Deferred raw \<Rightarrow> AssignBytes W raw v))"
    by (auto simp: hamtBytesEntry_def fun_eq_iff)
  ultimately show ?thesis by simp
qed

lemma arrayNodeEntry_keyed: "keyedBy (\<lambda>(k, raw). decimalInt k) (arrayNodeEntry W elem)"
proof -
  have "keyedBy (\<lambda>(k, raw). decimalInt k)
     (\<lambda>x mapper. andThen (AssembleEntry W ((\<lambda>(k, raw). decimalInt k) x) mapper)
        (\<lambda>v. case dagcborDecoder W elem (snd x) of
            Inl err \<Rightarrow> (v, Some err)
          | Inr actor \<Rightarrow> AssignNode W actor v))"
    by (rule keyed_frame) (auto simp: AssignNode_def split: sum.splits intro: exI)
  moreover have "arrayNodeEntry W elem =
     (\<lambda>x mapper. andThen (AssembleEntry W ((\<lambda>(k, raw). decimalInt k) x) mapper)
        (\<lambda>v. case dagcborDecoder W elem (snd x) of
            Inl err \<Rightarrow> (v, Some err)
          | Inr actor \<Rightarrow> AssignNode W actor v))"
    by (auto simp: arrayNodeEntry_def fun_eq_iff)
  ultimately show ?thesis by simp
qed

lemma arrayBytesEntry_keyed: "keyedBy (\<lambda>(k, value). decimalInt k) (arrayBytesEntry W)"
proof -
  have "keyedBy (\<lambda>(k, value). decimalInt k)
     (\<lambda>x mapper. andThen (AssembleEntry W ((\<lambda>(k, value). decimalInt k) x) mapper)
        (\<lambda>v. AssignBytes W (snd x) v))"
    by (rule keyed_frame) (auto simp: AssignBytes_def intro: exI)
  moreover have "arrayBytesEntry W =
     (\<lambda>x mapper. andThen (AssembleEntry W ((\<lambda>(k, value). decimalInt k) x) mapper)
        (\<lambda>v. AssignBytes W (snd x) v))"
    by (auto simp: arrayBytesEntry_def fun_eq_iff)
  ultimately show ?thesis by simp
qed

lemma eventQueueEntry_keyed:
  "keyedBy (\<lambda>(k, val). decimalNat (bigEndian k)) (eventQueueEntry W)"
proof -
  let ?body = "\<lambda>x v. let amt = NewBuilder Map__PowerV0CronEvent__Repr in
          case BeginMap W amt of
            (amtM, Some err) \<Rightarrow> (v, Some err)
          | (amtM, None) \<Rightarrow>
              (case ForEach (snd x) (arrayNodeEntry W PowerV0CronEvent__Repr) amtM of
                 (amtM, Some err) \<Rightarrow> (v, Some err)
               | (amtM, None) \<Rightarrow>
                   (case Finish W amtM of
                      (amtM, Some err) \<Rightarrow> (v, Some err)
                    | (amtM, None) \<Rightarrow>
                        (case Build amtM of
                           Inl err \<Rightarrow> (v, Some err)
                         | Inr n \<Rightarrow> AssignNode W n v)))"
  have "keyedBy (\<lambda>(k, val). decimalNat (bigEndian k))
     (\<lambda>x mapper. andThen (AssembleEntry W ((\<lambda>(k, val). decimalNat (bigEndian k)) x) mapper)
        (?body x))"
    by (rule keyed_frame)
      (auto simp: AssignNode_def Let_def split: sum.splits prod.splits option.splits intro: exI)
  moreover have "eventQueueEntry W =
     (\<lambda>x mapper. andThen (AssembleEntry W ((\<lambda>(k, val). decimalNat (bigEndian k)) x) mapper)
        (?body x))"
    by (auto simp: eventQueueEntry_def fun_eq_iff)
  ultimately show ?thesis by simp
qed

lemma dealOpsEntry_keyed:
  "keyedBy (\<lambda>(k, value). decimalNat (bigEndian k)) (dealOpsEntry W)"
  unfolding keyedBy_def
proof (intro allI impI)
  fix x :: "string \<times> cid" and a a' es
  assume c: "dealOpsEntry W x a = (a', None)" and s: "State a = MapOpen es None"
  obtain k val where x: "x = (k, val)" by (cases x)
  from c x obtain set' where "AsSet W val = Inr set'"
    by (cases "AsSet W val") (auto simp: dealOpsEntry_def)
  with c x obtain v where ae: "AssembleEntry W (decimalNat (bigEndian k)) a = (v, None)"
    and "\<exists>r. assign r v = (a', None)"
    by (auto simp: dealOpsEntry_def andThen_def AssignNode_def Let_def
        split: prod.splits option.splits sum.splits intro: exI)
  then obtain r where r: "assign r v = (a', None)" by blast
  from AssembleEntry_keyed [OF ae s] assign_keyed [OF r] x
  show "Prototype a' = Prototype a \<and>
        (\<exists>n. State a' = MapOpen (es @ [((\<lambda>(k, value). decimalNat (bigEndian k)) x, n)]) None)"
    by auto
qed

lemma ForEach_all_visited:
  "ForEach it callback a = (a', None) \<Longrightarrow> \<forall>r\<in>set it. \<exists>x. r = Inr x"
proof (induction it arbitrary: a)
  case Nil
  then show ?case by simp
next
  case (Cons r it)
  show ?case
  proof (cases r)
    case (Inl err)
    with Cons.prems show ?thesis by simp
  next
    case (Inr x)
    with Cons.prems obtain a1 where "ForEach it callback a1 = (a', None)"
      by (auto split: prod.splits option.splits)
    with Cons.IH Inr show ?thesis by auto
  qed
qed

lemma visited_asCBORBytes:
  "\<forall>r\<in>set (asCBORBytes W arr). \<exists>x. r = Inr x \<Longrightarrow>
   map fst (visited (asCBORBytes W arr)) = map fst (visited arr)"
proof (induction arr)
  case Nil
  then show ?case by (simp add: asCBORBytes_def)
next
  case (Cons r arr)
  then have ih: "map fst (visited (asCBORBytes W arr)) = map fst (visited arr)"
    by (simp add: asCBORBytes_def)
  from Cons.prems show ?case
    using ih by (cases r) (auto simp: asCBORBytes_def split: sum.splits prod.splits)
qed

lemma decodeMap_all_visited:
  "decodeMap W (Inr it) callback a = (a', None) \<Longrightarrow> \<forall>r\<in>set it. \<exists>x. r = Inr x"
  by (auto simp: decodeMap_def andThen_def split: prod.splits option.splits
      dest!: ForEach_all_visited)

lemma bitfield_keys:
  assumes "AsArray W c = Inr arr" and "transformMinerActorBitfieldHamt W c a = (a', None)"
  shows "entryKeys a' = map (\<lambda>(k, v). decimalInt k) (visited arr)"
proof -
  from assms have d: "decodeMap W (Inr (asCBORBytes W arr)) (arrayBytesEntry W) a = (a', None)"
    by (simp add: transformMinerActorBitfieldHamt_def)
  from decodeMap_keys [OF arrayBytesEntry_keyed d]
  have "entryKeys a' = map decimalInt (map fst (visited (asCBORBytes W arr)))"
    by (simp add: case_prod_unfold comp_def)
  also have "map fst (visited (asCBORBytes W arr)) = map fst (visited arr)"
    using decodeMap_all_visited [OF d] by (rule visited_asCBORBytes)
  finally show ?thesis by (simp add: case_prod_unfold comp_def)
qed

text \<open>The seventeen decoders of the registry, by the key they emit.\<close>

lemma registry_decoders:
  "snd ` set complexLoaders =
     {transformMultisigPending, transformMinerActorPreCommittedSectors,
      transformPowerActorEventQueue, transformMarketDealOpsByEpoch}
     \<union> {transformStateRoot, transformInitActor, transformPowerActorClaims,
         transformVerifiedRegistryDataCaps, transformMarketPendingProposals,
         transformMarketBalanceTable}
     \<union> {transformMinerActorBitfieldHamt, transformMinerActorSectors,
         transformMinerActorDeadlinePartitions,
         transformMinerActorDeadlinePartitionExpiry, transformMarketProposals,
         transformMarketStates, transformPaymentChannelLaneStates}"
  unfolding complexLoaders_def by auto

text \<open>
  C9, as amended. Whenever a decoder returns no error, the keys of its map are, in the
  order of the visit: for the decoders of multisig pending transactions, miner
  pre-committed sectors, the power cron event queue and market deal ops by epoch, the
  decimal string of the key bytes read as a big-endian unsigned integer, whatever the
  bytes; for the six other decoders of a HAMT, the key string unchanged; for the seven
  decoders of a sharded array, the decimal string of the \<open>int64\<close> index.
\<close>

theorem decoder_keys:
  "(LoadNode W c = Inr hamt \<longrightarrow>
      (\<forall>D \<in> {transformMultisigPending, transformMinerActorPreCommittedSectors}.
          D W c a = (a', None) \<longrightarrow>
          entryKeys a' = map (\<lambda>(k, v). decimalNat (bigEndian k)) (visited hamt))
      \<and> (\<forall>D \<in> {transformStateRoot, transformInitActor, transformPowerActorClaims,
                 transformVerifiedRegistryDataCaps, transformMarketPendingProposals,
                 transformMarketBalanceTable}.
          D W c a = (a', None) \<longrightarrow> entryKeys a' = map (\<lambda>(k, v). k) (visited hamt)))
   \<and> (AsMultimap W c = Inr multimap \<longrightarrow>
        transformPowerActorEventQueue W c a = (a', None) \<longrightarrow>
        entryKeys a' = map (\<lambda>(k, v). decimalNat (bigEndian k)) (visited multimap))
   \<and> (AsMap W c = Inr table \<longrightarrow>
        transformMarketDealOpsByEpoch W c a = (a', None) \<longrightarrow>
        entryKeys a' = map (\<lambda>(k, v). decimalNat (bigEndian k)) (visited table))
   \<and> (AsArray W c = Inr array \<longrightarrow>
        (\<forall>D \<in> {transformMinerActorBitfieldHamt, transformMinerActorSectors,
                 transformMinerActorDeadlinePartitions,
                 transformMinerActorDeadlinePartitionExpiry, transformMarketProposals,
                 transformMarketStates, transformPaymentChannelLaneStates}.
          D W c a = (a', None) \<longrightarrow>
          entryKeys a' = map (\<lambda>(k, v). decimalInt k) (visited array)))"
proof -
  note hn = decodeMap_keys [OF hamtNodeEntry_keyed, simplified case_prod_unfold]
  note hi = decodeMap_keys [OF hamtIntEntry_keyed]
  note hb = decodeMap_keys [OF hamtBytesEntry_keyed]
  note an = decodeMap_keys [OF arrayNodeEntry_keyed, simplified case_prod_unfold]
  note eq = decodeMap_keys [OF eventQueueEntry_keyed, simplified case_prod_unfold]
  note dl = decodeMap_keys [OF dealOpsEntry_keyed, simplified case_prod_unfold]
  have numeric: "entryKeys a' = map (\<lambda>(k, v). decimalNat (bigEndian k)) (visited hamt)"
    if "LoadNode W c = Inr hamt"
      and "D \<in> {transformMultisigPending, transformMinerActorPreCommittedSectors}"
      and "D W c a = (a', None)" for D
    using that by (auto simp: transform_defs case_prod_unfold dest: hn)
  have plain: "entryKeys a' = map (\<lambda>(k, v). k) (visited hamt)"
    if "LoadNode W c = Inr hamt"
      and "D \<in> {transformStateRoot, transformInitActor, transformPowerActorClaims,
                 transformVerifiedRegistryDataCaps, transformMarketPendingProposals,
                 transformMarketBalanceTable}"
      and "D W c a = (a', None)" for D
    using that by (auto simp: transform_defs case_prod_unfold dest: hn hi hb)
  have queue: "entryKeys a' = map (\<lambda>(k, v). decimalNat (bigEndian k)) (visited multimap)"
    if "AsMultimap W c = Inr multimap" and "transformPowerActorEventQueue W c a = (a', None)"
    using that by (auto simp: transform_defs case_prod_unfold dest: eq)
  have ops: "entryKeys a' = map (\<lambda>(k, v). decimalNat (bigEndian k)) (visited table)"
    if "AsMap W c = Inr table" and "transformMarketDealOpsByEpoch W c a = (a', None)"
    using that by (auto simp: transform_defs case_prod_unfold dest: dl)
  have indexed: "entryKeys a' = map (\<lambda>(k, v). decimalInt k) (visited array)"
    if "AsArray W c = Inr array"
      and "D \<in> {transformMinerActorBitfieldHamt, transformMinerActorSectors,
                 transformMinerActorDeadlinePartitions,
                 transformMinerActorDeadlinePartitionExpiry, transformMarketProposals,
                 transformMarketStates, transformPaymentChannelLaneStates}"
      and "D W c a = (a', None)" for D
    using that bitfield_keys [of W c array a a']
    by (auto simp: transformMinerActorSectors_def transformMinerActorDeadlinePartitions_def transformMinerActorDeadlinePartitionExpiry_def transformMarketProposals_def transformMarketStates_def transformPaymentChannelLaneStates_def case_prod_unfold dest: an)
  show ?thesis
    using numeric plain queue ops indexed by blast
qed

text \<open>
  Witness for C9: the key bytes 01 00 become \<open>256\<close> in the multisig decoder and stay
  as they are in the claims decoder; the indices 0 and 5 of an array become \<open>0\<close> and
  \<open>5\<close>.
\<close>

theorem decoder_keys_witness:
  "LoadNode demoWorld ''hamt''
     = Inr [Inr ([CHR 0x01, CHR 0x00], Deferred ''a''), Inr (''k'', Deferred ''b'')]
   \<and> entryKeys (fst (transformMultisigPending demoWorld ''hamt''
                      (NewBuilder Map__MultisigV0Transaction__Repr))) = [''256'', ''107'']
   \<and> entryKeys (fst (transformPowerActorClaims demoWorld ''hamt''
                      (NewBuilder Map__PowerV0Claim__Repr))) = [[CHR 0x01, CHR 0x00], ''k'']
   \<and> AsArray demoWorld ''amt'' = Inr [Inr (0, ''a''), Inr (5, ''b'')]
   \<and> entryKeys (fst (transformMarketStates demoWorld ''amt''
                      (NewBuilder Map__MarketV0DealState__Repr))) = [''0'', ''5'']"
proof -
  let ?hamt = "[Inr ([CHR 0x01, CHR 0x00], Deferred ''a''), Inr (''k'', Deferred ''b'')]
                 :: (string \<times> hamtValue) iteration"
  let ?arr = "[Inr (0, ''a''), Inr (5, ''b'')] :: (int \<times> bytes) iteration"
  have h: "LoadNode demoWorld ''hamt'' = Inr ?hamt" by (simp add: demoWorld_def)
  have r: "AsArray demoWorld ''amt'' = Inr ?arr" by (simp add: demoWorld_def)
  obtain a1 where m: "transformMultisigPending demoWorld ''hamt''
      (NewBuilder Map__MultisigV0Transaction__Repr) = (a1, None)"
    by (simp add: eval_defs)
  obtain a2 where p: "transformPowerActorClaims demoWorld ''hamt''
      (NewBuilder Map__PowerV0Claim__Repr) = (a2, None)"
    by (simp add: eval_defs)
  obtain a3 where s: "transformMarketStates demoWorld ''amt''
      (NewBuilder Map__MarketV0DealState__Repr) = (a3, None)"
    by (simp add: eval_defs)
  from decoder_keys [of demoWorld "''hamt''" ?hamt
      "NewBuilder Map__MultisigV0Transaction__Repr" a1] h m
  have k1: "entryKeys a1 = map (\<lambda>(k, v). decimalNat (bigEndian k)) (visited ?hamt)" by simp
  from decoder_keys [of demoWorld "''hamt''" ?hamt
      "NewBuilder Map__PowerV0Claim__Repr" a2] h p
  have k2: "entryKeys a2 = map (\<lambda>(k, v). k) (visited ?hamt)" by simp
  from decoder_keys [of demoWorld "''amt''" _ "NewBuilder Map__MarketV0DealState__Repr" a3
      _ _ ?arr] r s
  have k3: "entryKeys a3 = map (\<lambda>(k, v). decimalInt k) (visited ?arr)" by simp
  show ?thesis
    using h r m p s k1 k2 k3
    by (simp add: bigEndian_def decimalNat.simps decimalInt_def)
qed

text \<open>
  Counterexample to C9 as stated: \<open>transformMinerActorSectors\<close> is not one of the four
  decoders, and the keys it emits are not string keys of its structure passed through:
  the array hands it the indices 0 and 5, and it formats them.
\<close>

theorem array_keys_not_passed_through:
  "(Map__SectorOnChainInfo__Repr, transformMinerActorSectors) \<in> set complexLoaders
   \<and> AsArray demoWorld ''amt'' = Inr [Inr (0, ''a''), Inr (5, ''b'')]
   \<and> entryKeys (fst (transformMinerActorSectors demoWorld ''amt''
                      (NewBuilder Map__SectorOnChainInfo__Repr))) = [''0'', ''5'']
   \<and> \<not> passedThrough (map (\<lambda>(k, raw). IndexKey k) (visited [Inr (0, ''a''), Inr (5, ''b'')]))
          (entryKeys (fst (transformMinerActorSectors demoWorld ''amt''
                      (NewBuilder Map__SectorOnChainInfo__Repr))))"
  by (simp add: eval_defs entryKeys_def passedThrough_def complexLoaders_def)

subsection \<open>The two revisions of Transform\<close>

lemma sameOutcome_refl: "sameOutcome r r"
  by (cases r) (simp_all add: sameOutcome_def)

lemma decodeMap_sw_eq:
  "decodeMap_sw W loaded p callback =
     (case decodeMap W loaded callback (NewBuilder p) of
        (a, Some err) \<Rightarrow> Inl err
      | (a, None) \<Rightarrow> Build a)"
  by (auto simp: decodeMap_sw_def decodeMap_def andThen_def Let_def
      split: sum.splits prod.splits option.splits)

lemma agree_unknown:
  assumes "ResolveType_sw as = t" and "ResolveType as = t"
    and "t \<notin> fst ` set LotusPrototypes"
  shows "sameOutcome (Transform_sw W c as) (Transform W c as)"
proof -
  from assms(3) have n: "map_of LotusPrototypes t = None" by (simp add: map_of_eq_None_iff)
  have "fst ` set complexTransforms_sw \<subseteq> fst ` set LotusPrototypes"
    by (simp add: table_defs)
  with assms(3) have "t \<notin> fst ` set complexTransforms_sw" by blast
  then have n1: "map_of complexTransforms_sw t = None" by (simp add: map_of_eq_None_iff)
  have "fst ` set blockPrototypes_sw \<subseteq> fst ` set LotusPrototypes"
    by (simp add: table_defs)
  with assms(3) have "t \<notin> fst ` set blockPrototypes_sw" by blast
  then have n2: "map_of blockPrototypes_sw t = None" by (simp add: map_of_eq_None_iff)
  show ?thesis
    using assms(1,2) n n1 n2
    by (auto simp: Transform_sw_def Transform_def sameOutcome_def split: sum.splits)
qed

lemma agree_block:
  assumes "ResolveType_sw as = t" and "ResolveType as = t"
    and "map_of complexTransforms_sw t = None"
    and "map_of blockPrototypes_sw t = Some p"
    and "map_of LotusPrototypes t = Some p"
    and "map_of complexLoaders p = None"
  shows "sameOutcome (Transform_sw W c as) (Transform W c as)"
  using assms
  by (auto simp: Transform_sw_def Transform_def Load_def Let_def Build_def NewBuilder_def
      sameOutcome_def split: sum.splits)

lemma agree_complex:
  assumes "ResolveType_sw as = t" and "ResolveType as = t"
    and "map_of complexTransforms_sw t = Some transform"
    and "map_of LotusPrototypes t = Some p"
    and "map_of complexLoaders p = Some complexLoader"
    and "\<And>W c. transform W c =
           (case complexLoader W c (NewBuilder p) of
              (a, Some err) \<Rightarrow> Inl err
            | (a, None) \<Rightarrow> Build a)"
  shows "sameOutcome (Transform_sw W c as) (Transform W c as)"
  using assms(1-5)
  by (simp add: Transform_sw_def Transform_def Load_def Let_def assms(6) sameOutcome_refl
      Prototype_NewBuilder)

lemma agree_known:
  assumes "ResolveType_sw as = t" and "ResolveType as = t"
    and "t \<in> fst ` set LotusPrototypes" and "t \<notin> set divergentTypes"
  shows "sameOutcome (Transform_sw W c as) (Transform W c as)"
proof -
  note lookups = table_defs LotusType_defs
  note blk = agree_block [OF assms(1,2)]
  note cpx = agree_complex [OF assms(1,2)]
  from assms(3,4) consider
      "t = LotusTypeTipset"
    | "t = AccountActorState"
    | "t = CronActorState"
    | "t = InitActorState"
    | "t = MarketActorState"
    | "t = MultisigActorState"
    | "t = StorageMinerActorState"
    | "t = StorageMinerActorInfo"
    | "t = StorageMinerActorVestingFunds"
    | "t = StorageMinerActorAllocatedSectors"
    | "t = StorageMinerActorDeadlines"
    | "t = StorageMinerActorDeadline"
    | "t = StoragePowerActorState"
    | "t = RewardActorState"
    | "t = VerifiedRegistryActorState"
    | "t = PaymentChannelActorState"
    | "t = StorageMinerActorPreCommittedSectors"
    | "t = StorageMinerActorDeadlinePartitionEarly"
    | "t = StorageMinerActorPreCommittedSectorsExpiry"
    | "t = StorageMinerActorSectors"
    | "t = StorageMinerActorDeadlinePartitions"
    | "t = StorageMinerActorDeadlinePartitionExpiry"
    | "t = StorageMinerActorDeadlineExpiry"
    | "t = StoragePowerActorClaims"
    | "t = VerifiedRegistryActorVerifiers"
    | "t = VerifiedRegistryActorVerifiedClients"
    | "t = MarketActorStates"
    | "t = MarketActorEscrowTable"
    | "t = MarketActorLockedTable"
    | "t = MarketActorDealOpsByEpoch"
    | "t = MultisigActorPending"
    | "t = PaymentChannelActorLaneStates"
    unfolding LotusPrototypes_def divergentTypes_def by auto
  then show ?thesis
  proof cases
    case 1
    then show ?thesis
      by (intro blk [where p = LotusBlockHeader__Repr]) (simp_all add: lookups)
  next
    case 2
    then show ?thesis
      by (intro blk [where p = AccountV0State__Repr]) (simp_all add: lookups)
  next
    case 3
    then show ?thesis
      by (intro blk [where p = CronV0State__Repr]) (simp_all add: lookups)
  next
    case 4
    then show ?thesis
      by (intro blk [where p = InitV0State__Repr]) (simp_all add: lookups)
  next
    case 5
    then show ?thesis
      by (intro blk [where p = MarketV0State__Repr]) (simp_all add: lookups)
  next
    case 6
    then show ?thesis
      by (intro blk [where p = MultisigV0State__Repr]) (simp_all add: lookups)
  next
    case 7
    then show ?thesis
      by (intro blk [where p = MinerV0State__Repr]) (simp_all add: lookups)
  next
    case 8
    then show ?thesis
      by (intro blk [where p = MinerV0Info__Repr]) (simp_all add: lookups)
  next
    case 9
    then show ?thesis
      by (intro blk [where p = MinerV0VestingFunds__Repr]) (simp_all add: lookups)
  next
    case 10
    then show ?thesis
      by (intro blk [where p = BitField__Repr]) (simp_all add: lookups)
  next
    case 11
    then show ?thesis
      by (intro blk [where p = MinerV0Deadlines__Repr]) (simp_all add: lookups)
  next
    case 12
    then show ?thesis
      by (intro blk [where p = MinerV0Deadline__Repr]) (simp_all add: lookups)
  next
    case 13
    then show ?thesis
      by (intro blk [where p = PowerV0State__Repr]) (simp_all add: lookups)
  next
    case 14
    then show ?thesis
      by (intro blk [where p = RewardV0State__Repr]) (simp_all add: lookups)
  next
    case 15
    then show ?thesis
      by (intro blk [where p = VerifregV0State__Repr]) (simp_all add: lookups)
  next
    case 16
    then show ?thesis
      by (intro blk [where p = PaychV0State__Repr]) (simp_all add: lookups)
  next
    case 17
    then show ?thesis
      by (intro cpx [where transform = transformMinerActorPreCommittedSectors_sw
            and complexLoader = transformMinerActorPreCommittedSectors
            and p = Map__SectorPreCommitOnChainInfo__Repr])
        (simp_all add: lookups transform_defs transform_sw_defs decodeMap_sw_eq)
  next
    case 18
    then show ?thesis
      by (intro cpx [where transform = transformMinerActorPreCommittedSectorsExpiry_sw
            and complexLoader = transformMinerActorBitfieldHamt
            and p = Map__BitField__Repr])
        (simp_all add: lookups transform_defs transform_sw_defs decodeMap_sw_eq)
  next
    case 19
    then show ?thesis
      by (intro cpx [where transform = transformMinerActorPreCommittedSectorsExpiry_sw
            and complexLoader = transformMinerActorBitfieldHamt
            and p = Map__BitField__Repr])
        (simp_all add: lookups transform_defs transform_sw_defs decodeMap_sw_eq)
  next
    case 20
    then show ?thesis
      by (intro cpx [where transform = transformMinerActorSectors_sw
            and complexLoader = transformMinerActorSectors
            and p = Map__SectorOnChainInfo__Repr])
        (simp_all add: lookups transform_defs transform_sw_defs decodeMap_sw_eq)
  next
    case 21
    then show ?thesis
      by (intro cpx [where transform = transformMinerActorDeadlinePartitions_sw
            and complexLoader = transformMinerActorDeadlinePartitions
            and p = Map__MinerV0Partition__Repr])
        (simp_all add: lookups transform_defs transform_sw_defs decodeMap_sw_eq)
  next
    case 22
    then show ?thesis
      by (intro cpx [where transform = transformMinerActorDeadlinePartitionExpiry_sw
            and complexLoader = transformMinerActorDeadlinePartitionExpiry
            and p = Map__MinerV0ExpirationSet__Repr])
        (simp_all add: lookups transform_defs transform_sw_defs decodeMap_sw_eq)
  next
    case 23
    then show ?thesis
      by (intro cpx [where transform = transformMinerActorDeadlineExpiry_sw
            and complexLoader = transformMinerActorBitfieldHamt
            and p = Map__BitField__Repr])
        (simp_all add: lookups transform_defs transform_sw_defs decodeMap_sw_eq)
  next
    case 24
    then show ?thesis
      by (intro cpx [where transform = transformPowerActorClaims_sw
            and complexLoader = transformPowerActorClaims
            and p = Map__PowerV0Claim__Repr])
        (simp_all add: lookups transform_defs transform_sw_defs decodeMap_sw_eq)
  next
    case 25
    then show ?thesis
      by (intro cpx [where transform = transformVerifiedRegistryDataCaps_sw
            and complexLoader = transformVerifiedRegistryDataCaps
            and p = Map__DataCap__Repr])
        (simp_all add: lookups transform_defs transform_sw_defs decodeMap_sw_eq)
  next
    case 26
    then show ?thesis
      by (intro cpx [where transform = transformVerifiedRegistryDataCaps_sw
            and complexLoader = transformVerifiedRegistryDataCaps
            and p = Map__DataCap__Repr])
        (simp_all add: lookups transform_defs transform_sw_defs decodeMap_sw_eq)
  next
    case 27
    then show ?thesis
      by (intro cpx [where transform = transformMarketStates_sw
            and complexLoader = transformMarketStates
            and p = Map__MarketV0DealState__Repr])
        (simp_all add: lookups transform_defs transform_sw_defs decodeMap_sw_eq)
  next
    case 28
    then show ?thesis
      by (intro cpx [where transform = transformMarketBalanceTable_sw
            and complexLoader = transformMarketBalanceTable
            and p = Map__BalanceTable__Repr])
        (simp_all add: lookups transform_defs transform_sw_defs decodeMap_sw_eq)
  next
    case 29
    then show ?thesis
      by (intro cpx [where transform = transformMarketBalanceTable_sw
            and complexLoader = transformMarketBalanceTable
            and p = Map__BalanceTable__Repr])
        (simp_all add: lookups transform_defs transform_sw_defs decodeMap_sw_eq)
  next
    case 30
    then show ?thesis
      by (intro cpx [where transform = transformMarketDealOpsByEpoch_sw
            and complexLoader = transformMarketDealOpsByEpoch
            and p = Map__List__DealID__Repr])
        (simp_all add: lookups transform_defs transform_sw_defs decodeMap_sw_eq)
  next
    case 31
    then show ?thesis
      by (intro cpx [where transform = transformMultisigPending_sw
            and complexLoader = transformMultisigPending
            and p = Map__MultisigV0Transaction__Repr])
        (simp_all add: lookups transform_defs transform_sw_defs decodeMap_sw_eq)
  next
    case 32
    then show ?thesis
      by (intro cpx [where transform = transformPaymentChannelLaneStates_sw
            and complexLoader = transformPaymentChannelLaneStates
            and p = Map__PaychV0LaneState__Repr])
        (simp_all add: lookups transform_defs transform_sw_defs decodeMap_sw_eq)
  qed
qed

text \<open>
  Where the two revisions agree. For every store, CID and type path that the two
  resolvers resolve to the same key, that key being none of the five of
  \<open>divergentTypes\<close>, the switch-based and the registry-based \<open>Transform\<close> either both
  fail or both return the same node.
\<close>

theorem Transform_agree:
  assumes "ResolveType_sw as = ResolveType as" and "ResolveType as \<notin> set divergentTypes"
  shows "sameOutcome (Transform_sw W c as) (Transform W c as)"
proof (cases "ResolveType as \<in> fst ` set LotusPrototypes")
  case True
  with assms show ?thesis using agree_known by blast
next
  case False
  with assms show ?thesis using agree_unknown by blast
qed

text \<open>
  An instance: \<open>storageMinerActor.Sectors\<close> on an array of two entries.
\<close>

theorem Transform_agree_witness:
  "ResolveType_sw ''storageMinerActor.Sectors'' = ResolveType ''storageMinerActor.Sectors''
   \<and> ResolveType ''storageMinerActor.Sectors'' \<notin> set divergentTypes
   \<and> sameOutcome (Transform_sw demoWorld ''amt'' ''storageMinerActor.Sectors'')
         (Transform demoWorld ''amt'' ''storageMinerActor.Sectors'')
   \<and> Transform demoWorld ''amt'' ''storageMinerActor.Sectors''
       = Inr (NMap [(NString StringPlain ''0'', NBytes BytesPlain ''a''),
                    (NString StringPlain ''5'', NBytes BytesPlain ''b'')])"
proof -
  have r: "ResolveType ''storageMinerActor.Sectors'' = StorageMinerActorSectors"
    by (simp add: resolve_defs LotusType_defs)
  have rs: "ResolveType_sw ''storageMinerActor.Sectors'' = StorageMinerActorSectors"
    by (simp add: resolve_sw_defs LotusType_defs)
  have k: "StorageMinerActorSectors \<notin> set divergentTypes"
    by (simp add: divergentTypes_def LotusType_defs)
  have p: "map_of LotusPrototypes StorageMinerActorSectors = Some Map__SectorOnChainInfo__Repr"
    by (simp add: LotusPrototypes_def LotusType_defs)
  have t: "Transform demoWorld ''amt'' ''storageMinerActor.Sectors''
       = Inr (NMap [(NString StringPlain ''0'', NBytes BytesPlain ''a''),
                    (NString StringPlain ''5'', NBytes BytesPlain ''b'')])"
    by (simp add: Transform_def r p Load_def complexLoaders_def Prototype_NewBuilder eval_defs)
  from r rs k have h1: "ResolveType_sw ''storageMinerActor.Sectors''
      = ResolveType ''storageMinerActor.Sectors''"
    and h2: "ResolveType ''storageMinerActor.Sectors'' \<notin> set divergentTypes" by simp_all
  from Transform_agree [OF h1 h2, of demoWorld "''amt''"] h1 h2 t show ?thesis by simp
qed

text \<open>
  The two resolvers differ by design: only the registry-based revision replaces the
  slash, so \<open>tipset/ParentStateRoot\<close> is a known type for it alone.
\<close>

lemma resolvers_differ_on_slash:
  "ResolveType ''tipset/ParentStateRoot'' = LotusTypeStateroot
   \<and> ResolveType_sw ''tipset/ParentStateRoot'' = ''tipset/ParentStateRoot''
   \<and> \<not> sameOutcome (Transform_sw demoWorld ''hamt'' ''tipset/ParentStateRoot'')
        (Transform demoWorld ''hamt'' ''tipset/ParentStateRoot'')"
proof -
  have r2: "ResolveType ''tipset/ParentStateRoot'' = LotusTypeStateroot"
    by (simp add: resolve_defs LotusType_defs)
  have s2: "ResolveType_sw ''tipset/ParentStateRoot'' = ''tipset/ParentStateRoot''"
    by (simp add: resolve_sw_defs LotusType_defs)
  have p2: "map_of LotusPrototypes LotusTypeStateroot = Some Map__LotusActors__Repr"
    by (simp add: LotusPrototypes_def LotusType_defs)
  have c2: "map_of complexTransforms_sw ''tipset/ParentStateRoot'' = None"
    by (simp add: complexTransforms_sw_def LotusType_defs)
  have c: "Transform demoWorld ''hamt'' ''tipset/ParentStateRoot''
      = Inr (NMap [(NString StringPlain [CHR 0x01, CHR 0x00], NBytes BytesPlain ''a''),
                   (NString StringPlain ''k'', NBytes BytesPlain ''b'')])"
    by (simp add: Transform_def r2 p2 Load_def complexLoaders_def Prototype_NewBuilder eval_defs)
  have d: "Transform_sw demoWorld ''hamt'' ''tipset/ParentStateRoot''
      = Inl (External ''blockstore: block not found'')"
    by (simp add: Transform_sw_def s2 c2 demoWorld_def)
  show ?thesis by (simp add: r2 s2 c d sameOutcome_def)
qed

text \<open>
  C10 states that the switch-based and the registry-based \<open>Transform\<close> either both
  fail or both return the same node, and in particular select the same shape-specific
  decoder for the market \<open>Proposals\<close> and \<open>PendingProposals\<close> keys. The code does not
  do this. \<open>LotusPrototypes\<close> gives
  \<open>storageMarketActor.Proposals\<close> the prototype that \<open>complexLoaders\<close> maps to
  \<open>transformMarketPendingProposals\<close>, the HAMT decoder, where the switch calls
  \<open>transformMarketProposals\<close>, the array decoder; and it gives
  \<open>storageMarketActor.PendingProposals\<close> the prototype that \<open>complexLoaders\<close> maps to
  \<open>transformMarketProposals\<close>, where the switch calls
  \<open>transformMarketPendingProposals\<close>. On an array of two proposals the switch-based
  revision returns the map of the two entries and the registry-based one fails; on a
  HAMT of two pending proposals likewise.
\<close>

theorem registry_crosses_market_decoders:
  "map_of LotusPrototypes MarketActorProposals = Some Map__MarketV0RawDealProposal__Repr
   \<and> map_of complexLoaders Map__MarketV0RawDealProposal__Repr
       = Some transformMarketPendingProposals
   \<and> map_of complexTransforms_sw MarketActorProposals = Some transformMarketProposals_sw
   \<and> map_of LotusPrototypes MarketActorPendingProposals = Some Map__MarketV0DealProposal__Repr
   \<and> map_of complexLoaders Map__MarketV0DealProposal__Repr = Some transformMarketProposals
   \<and> map_of complexTransforms_sw MarketActorPendingProposals
       = Some transformMarketPendingProposals_sw
   \<and> Transform_sw demoWorld ''amt'' ''storageMarketActor.Proposals''
       = Inr (NMap [(NString StringPlain ''0'', NBytes BytesPlain ''a''),
                    (NString StringPlain ''5'', NBytes BytesPlain ''b'')])
   \<and> Transform demoWorld ''amt'' ''storageMarketActor.Proposals''
       = Inl (External ''blockstore: block not found'')
   \<and> Transform_sw demoWorld ''hamt'' ''storageMarketActor.PendingProposals''
       = Inr (NMap [(NString StringPlain [CHR 0x01, CHR 0x00], NBytes BytesPlain ''a''),
                    (NString StringPlain ''k'', NBytes BytesPlain ''b'')])
   \<and> Transform demoWorld ''hamt'' ''storageMarketActor.PendingProposals''
       = Inl (External ''blockstore: block not found'')
   \<and> \<not> sameOutcome (Transform_sw demoWorld ''amt'' ''storageMarketActor.Proposals'')
        (Transform demoWorld ''amt'' ''storageMarketActor.Proposals'')
   \<and> \<not> sameOutcome (Transform_sw demoWorld ''hamt'' ''storageMarketActor.PendingProposals'')
        (Transform demoWorld ''hamt'' ''storageMarketActor.PendingProposals'')"
proof -
  have r1: "ResolveType ''storageMarketActor.Proposals'' = MarketActorProposals"
    by (simp add: resolve_defs LotusType_defs)
  have s1: "ResolveType_sw ''storageMarketActor.Proposals'' = MarketActorProposals"
    by (simp add: resolve_sw_defs LotusType_defs)
  have p1: "map_of LotusPrototypes MarketActorProposals = Some Map__MarketV0RawDealProposal__Repr"
    by (simp add: LotusPrototypes_def LotusType_defs)
  have l1: "map_of complexLoaders Map__MarketV0RawDealProposal__Repr
      = Some transformMarketPendingProposals"
    by (simp add: complexLoaders_def)
  have c1: "map_of complexTransforms_sw MarketActorProposals = Some transformMarketProposals_sw"
    by (simp add: complexTransforms_sw_def LotusType_defs)
  have a: "Transform demoWorld ''amt'' ''storageMarketActor.Proposals''
      = Inl (External ''blockstore: block not found'')"
    by (simp add: Transform_def r1 p1 Load_def l1 Prototype_NewBuilder eval_defs)
  have b: "Transform_sw demoWorld ''amt'' ''storageMarketActor.Proposals''
      = Inr (NMap [(NString StringPlain ''0'', NBytes BytesPlain ''a''),
                   (NString StringPlain ''5'', NBytes BytesPlain ''b'')])"
    by (simp add: Transform_sw_def s1 c1 eval_defs)
  have r2: "ResolveType ''storageMarketActor.PendingProposals'' = MarketActorPendingProposals"
    by (simp add: resolve_defs LotusType_defs)
  have s2: "ResolveType_sw ''storageMarketActor.PendingProposals'' = MarketActorPendingProposals"
    by (simp add: resolve_sw_defs LotusType_defs)
  have p2: "map_of LotusPrototypes MarketActorPendingProposals
      = Some Map__MarketV0DealProposal__Repr"
    by (simp add: LotusPrototypes_def LotusType_defs)
  have l2: "map_of complexLoaders Map__MarketV0DealProposal__Repr = Some transformMarketProposals"
    by (simp add: complexLoaders_def)
  have c2: "map_of complexTransforms_sw MarketActorPendingProposals
      = Some transformMarketPendingProposals_sw"
    by (simp add: complexTransforms_sw_def LotusType_defs)
  have c: "Transform demoWorld ''hamt'' ''storageMarketActor.PendingProposals''
      = Inl (External ''blockstore: block not found'')"
    by (simp add: Transform_def r2 p2 Load_def l2 Prototype_NewBuilder eval_defs)
  have d: "Transform_sw demoWorld ''hamt'' ''storageMarketActor.PendingProposals''
      = Inr (NMap [(NString StringPlain [CHR 0x01, CHR 0x00], NBytes BytesPlain ''a''),
                   (NString StringPlain ''k'', NBytes BytesPlain ''b'')])"
    by (simp add: Transform_sw_def s2 c2 eval_defs)
  show ?thesis by (simp add: p1 l1 c1 p2 l2 c2 a b c d sameOutcome_def)
qed

end
